theory Spec2Isabelle
  imports Complex_Main "HOL-Library.Sublist"
begin

text \<open>
  A shallow embedding of the core of the video spoofer: the sampler and the two
  filter-chain builders (\<^verbatim>\<open>videoProcessorEnhanced.ts\<close> and the older
  \<^verbatim>\<open>videoProcessor.ts\<close>), the quality mapping, the engine adapters with their
  fallback tiers, the variation loop and the batch queue of
  \<^verbatim>\<open>BatchVideoProcessor.tsx\<close>. Definitions come first, in the order of the sources;
  the properties follow.
\<close>

section \<open>Numbers and their rendering\<close>

text \<open>
  The sources are TypeScript. A JavaScript \<^verbatim>\<open>number\<close> is modelled as an exact
  \<^typ>\<open>real\<close>: the rounding, overflow and NaN of IEEE-754 doubles are outside this
  development. Results of \<^verbatim>\<open>Math.floor\<close> are integers (\<^typ>\<open>int\<close>).

  What the code takes from the JavaScript runtime is collected in one record:
  \<^item> \<open>Math_random rt k\<close> is the value returned by the \<open>k\<close>-th call of
    \<^verbatim>\<open>Math.random()\<close> (calls are counted from 0); the runtime promises
    \<open>0 \<le> Math_random rt k < 1\<close>, which theorems state as a hypothesis where they need it;
  \<^item> \<open>bigToString rt x\<close> is \<^verbatim>\<open>Number::toString\<close> on a magnitude of at least
    \<open>10^21\<close>, where JavaScript switches to exponent notation; the model renders
    numbers itself below that bound only.
\<close>

record runtime =
  Math_random :: "nat \<Rightarrow> real"
  bigToString :: "real \<Rightarrow> string"

definition digit_char :: "nat \<Rightarrow> char" where
  "digit_char d = ''0123456789'' ! d"

text \<open>The decimal digits of a natural number, most significant first.\<close>

function digits :: "nat \<Rightarrow> string" where
  "digits n = (if n < 10 then [digit_char n] else digits (n div 10) @ [digit_char (n mod 10)])"
  by pat_completeness auto
termination
  by (relation "measure (\<lambda>n. n)") auto

declare digits.simps [simp del]

text \<open>
  \<^verbatim>\<open>Number.prototype.toString\<close> (and the conversion inside a template literal) on an
  integer-valued number, as every \<^verbatim>\<open>Math.floor\<close> result is.
\<close>

definition Number_toString :: "runtime \<Rightarrow> int \<Rightarrow> string" where
  "Number_toString rt n =
     (if 10 ^ 21 \<le> \<bar>n\<bar> then (if n < 0 then ''-'' else []) @ bigToString rt (of_int \<bar>n\<bar>)
      else if n < 0 then ''-'' @ digits (nat (- n))
      else digits (nat n))"

text \<open>
  \<^verbatim>\<open>Number.prototype.toFixed(f)\<close>, following ECMA-262: the sign is split off, the
  magnitude is scaled by \<open>10^f\<close> and rounded to the nearest integer \<open>n\<close> (the larger one
  on a tie), the digits of \<open>n\<close> are padded with zeros to \<open>f + 1\<close> places and the point
  is put before the last \<open>f\<close> of them. Every call in the sources has \<open>f\<close> in
  \<open>{2, 3, 4}\<close>, so the RangeError for \<open>f > 100\<close> cannot arise.
\<close>

definition toFixed :: "runtime \<Rightarrow> real \<Rightarrow> nat \<Rightarrow> string" where
  "toFixed rt x f =
     (if x < 0 then ''-'' else []) @
     (if 10 ^ 21 \<le> \<bar>x\<bar> then bigToString rt \<bar>x\<bar>
      else
        let n = nat \<lfloor>\<bar>x\<bar> * 10 ^ f + 1 / 2\<rfloor>;
            m = digits n;
            m = (if f \<noteq> 0 \<and> length m \<le> f then replicate (f + 1 - length m) (CHR ''0'') @ m else m)
        in if f \<noteq> 0 then take (length m - f) m @ ''.'' @ drop (length m - f) m else m)"

text \<open>\<^verbatim>\<open>Math.PI\<close> is the double nearest to \<open>\<pi>\<close>; this is its exact value.\<close>

definition Math_PI :: real where
  "Math_PI = 884279719003555 / 281474976710656"

text \<open>\<^verbatim>\<open>Array.prototype.join\<close> on an array of strings.\<close>

fun join :: "string list \<Rightarrow> string \<Rightarrow> string" where
  "join [] sep = []"
| "join [x] sep = x"
| "join (x # y # ys) sep = x @ sep @ join (y # ys) sep"

section \<open>The parameter model\<close>

text \<open>
  \<^verbatim>\<open>VideoProcessingParameters\<close> (declared identically in
  \<^verbatim>\<open>videoProcessor.ts\<close> and \<^verbatim>\<open>videoProcessorEnhanced.ts\<close>): one scalar, ranged
  parameters \<^verbatim>\<open>{enabled, min, max}\<close> and two parameters that are a toggle only.
\<close>

record toggle =
  enabled :: bool

record ranged = toggle +
  min_v :: real
  max_v :: real

record VideoProcessingParameters =
  videoQuality :: real
  videoBitrate :: ranged
  audioBitrate :: ranged
  framerate :: ranged
  saturation :: ranged
  contrast :: ranged
  brightness :: ranged
  gamma :: ranged
  vignette :: ranged
  noise :: ranged
  waveformShift :: ranged
  pixelShift :: ranged
  speed :: ranged
  zoom :: ranged
  volume :: ranged
  rotation :: ranged
  flipHorizontally :: toggle
  randomPixelSize :: toggle
  trim :: ranged

definition off :: "real \<Rightarrow> real \<Rightarrow> ranged" where
  "off lo hi = \<lparr>enabled = False, min_v = lo, max_v = hi\<rparr>"

definition on :: "real \<Rightarrow> real \<Rightarrow> ranged" where
  "on lo hi = \<lparr>enabled = True, min_v = lo, max_v = hi\<rparr>"

text \<open>
  The initial parameters of the \<^verbatim>\<open>VideoSpoofer\<close> page: quality 80 and every
  parameter disabled.
\<close>

definition initialParameters :: VideoProcessingParameters where
  "initialParameters =
     \<lparr>videoQuality = 80,
      videoBitrate = off 1000 15000,
      audioBitrate = off 96 128,
      framerate = off 24 60,
      saturation = off 1.0 1.3,
      contrast = off 0.5 1.5,
      brightness = off (- 0.3) 0.3,
      gamma = off 0.7 1.3,
      vignette = off 0.0 1.0,
      noise = off 0.0 1.0,
      waveformShift = off 0.0 1.0,
      pixelShift = off 0.0 1.0,
      speed = off 0.9 1.2,
      zoom = off 0.0 2.0,
      volume = off 0.9 1.2,
      rotation = off (- 10) 10,
      flipHorizontally = \<lparr>enabled = False\<rparr>,
      randomPixelSize = \<lparr>enabled = False\<rparr>,
      trim = off 0.2 1.0\<rparr>"

section \<open>The sampler and the quality mapping\<close>

text \<open>
  \<^verbatim>\<open>getRandomValue(min, max) = Math.random() * (max - min) + min\<close>, the same
  in both processors. The argument \<open>k\<close> is the number of calls of
  \<^verbatim>\<open>Math.random()\<close> made before this one; the caller counts it on.
\<close>

definition getRandomValue :: "runtime \<Rightarrow> nat \<Rightarrow> real \<Rightarrow> real \<Rightarrow> real" where
  "getRandomValue rt k mn mx = Math_random rt k * (mx - mn) + mn"

text \<open>
  The value both \<^verbatim>\<open>processVideo\<close> methods pass after \<^verbatim>\<open>-crf\<close>:
  \<^verbatim>\<open>51 - Math.floor(params.videoQuality * 0.51)\<close>.
\<close>

definition crf :: "real \<Rightarrow> int" where
  "crf q = 51 - \<lfloor>q * 0.51\<rfloor>"

section \<open>The filter-chain builder of the enhanced processor\<close>

text \<open>
  \<^verbatim>\<open>VideoProcessorEnhanced.buildFilterChain\<close>. The local variables of the method
  are the fields of a record; \<open>randomCalls\<close> counts the calls of
  \<^verbatim>\<open>Math.random()\<close> made so far. Each block of the method is one step on this
  record, in the order of the source. The method returns
  \<^verbatim>\<open>{ videoFilters: filters, appliedFilters }\<close>.
\<close>

record chain =
  eqParams :: "string list"
  filters :: "string list"
  appliedFilters :: "string list"
  randomCalls :: nat

definition saturation_step :: "runtime \<Rightarrow> VideoProcessingParameters \<Rightarrow> chain \<Rightarrow> chain" where
  "saturation_step rt params c =
     (if enabled (saturation params) then
        let value = getRandomValue rt (randomCalls c)
                      (min_v (saturation params)) (max_v (saturation params))
        in c\<lparr>eqParams := eqParams c @ [''saturation='' @ toFixed rt value 3],
             appliedFilters := appliedFilters c @ [''saturation='' @ toFixed rt value 3],
             randomCalls := Suc (randomCalls c)\<rparr>
      else c)"

definition contrast_step :: "runtime \<Rightarrow> VideoProcessingParameters \<Rightarrow> chain \<Rightarrow> chain" where
  "contrast_step rt params c =
     (if enabled (contrast params) then
        let value = getRandomValue rt (randomCalls c)
                      (min_v (contrast params)) (max_v (contrast params))
        in c\<lparr>eqParams := eqParams c @ [''contrast='' @ toFixed rt value 3],
             appliedFilters := appliedFilters c @ [''contrast='' @ toFixed rt value 3],
             randomCalls := Suc (randomCalls c)\<rparr>
      else c)"

definition brightness_step :: "runtime \<Rightarrow> VideoProcessingParameters \<Rightarrow> chain \<Rightarrow> chain" where
  "brightness_step rt params c =
     (if enabled (brightness params) then
        let value = getRandomValue rt (randomCalls c)
                      (min_v (brightness params)) (max_v (brightness params))
        in c\<lparr>eqParams := eqParams c @ [''brightness='' @ toFixed rt value 3],
             appliedFilters := appliedFilters c @ [''brightness='' @ toFixed rt value 3],
             randomCalls := Suc (randomCalls c)\<rparr>
      else c)"

definition gamma_step :: "runtime \<Rightarrow> VideoProcessingParameters \<Rightarrow> chain \<Rightarrow> chain" where
  "gamma_step rt params c =
     (if enabled (gamma params) then
        let value = getRandomValue rt (randomCalls c)
                      (min_v (gamma params)) (max_v (gamma params))
        in c\<lparr>eqParams := eqParams c @ [''gamma='' @ toFixed rt value 3],
             appliedFilters := appliedFilters c @ [''gamma='' @ toFixed rt value 3],
             randomCalls := Suc (randomCalls c)\<rparr>
      else c)"

definition eq_step :: "runtime \<Rightarrow> VideoProcessingParameters \<Rightarrow> chain \<Rightarrow> chain" where
  "eq_step rt params c =
     (if length (eqParams c) > 0
      then c\<lparr>filters := filters c @ [''eq='' @ join (eqParams c) '':'']\<rparr>
      else c)"

definition noise_step :: "runtime \<Rightarrow> VideoProcessingParameters \<Rightarrow> chain \<Rightarrow> chain" where
  "noise_step rt params c =
     (if enabled (noise params) then
        let value = getRandomValue rt (randomCalls c) (min_v (noise params)) (max_v (noise params));
            noiseStrength = \<lfloor>value * 10\<rfloor>
        in c\<lparr>filters := filters c @ [''noise=alls='' @ Number_toString rt noiseStrength @ '':allf=t''],
             appliedFilters := appliedFilters c @ [''noise='' @ Number_toString rt noiseStrength],
             randomCalls := Suc (randomCalls c)\<rparr>
      else c)"

definition rotation_step :: "runtime \<Rightarrow> VideoProcessingParameters \<Rightarrow> chain \<Rightarrow> chain" where
  "rotation_step rt params c =
     (if enabled (rotation params) then
        let degrees = getRandomValue rt (randomCalls c)
                        (min_v (rotation params)) (max_v (rotation params));
            radians = (degrees * Math_PI) / 180
        in c\<lparr>filters := filters c @ [''rotate='' @ toFixed rt radians 4],
             appliedFilters := appliedFilters c @ [''rotate='' @ toFixed rt degrees 2 @ [CHR 0xB0]],
             randomCalls := Suc (randomCalls c)\<rparr>
      else c)"

definition flip_step :: "runtime \<Rightarrow> VideoProcessingParameters \<Rightarrow> chain \<Rightarrow> chain" where
  "flip_step rt params c =
     (if enabled (flipHorizontally params)
      then c\<lparr>filters := filters c @ [''hflip''],
             appliedFilters := appliedFilters c @ [''hflip'']\<rparr>
      else c)"

definition zoom_step :: "runtime \<Rightarrow> VideoProcessingParameters \<Rightarrow> chain \<Rightarrow> chain" where
  "zoom_step rt params c =
     (if enabled (zoom params) then
        let zoomValue = getRandomValue rt (randomCalls c) (min_v (zoom params)) (max_v (zoom params));
            c = c\<lparr>randomCalls := Suc (randomCalls c)\<rparr>
        in if zoomValue > 0 then
             let scale = 1 + zoomValue
             in c\<lparr>filters := filters c @
                    [''scale=iw*'' @ toFixed rt scale 3 @ '':ih*'' @ toFixed rt scale 3],
                  appliedFilters := appliedFilters c @ [''zoom='' @ toFixed rt zoomValue 3]\<rparr>
           else c
      else c)"

definition pixelShift_step :: "runtime \<Rightarrow> VideoProcessingParameters \<Rightarrow> chain \<Rightarrow> chain" where
  "pixelShift_step rt params c =
     (if enabled (pixelShift params) then
        let shiftValue = getRandomValue rt (randomCalls c)
                           (min_v (pixelShift params)) (max_v (pixelShift params));
            c = c\<lparr>randomCalls := Suc (randomCalls c)\<rparr>
        in if shiftValue > 0 then
             let shiftPixels = \<lfloor>shiftValue * 5\<rfloor>
             in c\<lparr>filters := filters c @
                    [''crop=iw-'' @ Number_toString rt shiftPixels @
                     '':ih-'' @ Number_toString rt shiftPixels @
                     '':'' @ Number_toString rt \<lfloor>real_of_int shiftPixels / 2\<rfloor> @
                     '':'' @ Number_toString rt \<lfloor>real_of_int shiftPixels / 2\<rfloor>],
                  appliedFilters := appliedFilters c @
                    [''pixelShift='' @ Number_toString rt shiftPixels @ ''px'']\<rparr>
           else c
      else c)"

definition vignette_step :: "runtime \<Rightarrow> VideoProcessingParameters \<Rightarrow> chain \<Rightarrow> chain" where
  "vignette_step rt params c =
     (if enabled (vignette params) then
        let value = getRandomValue rt (randomCalls c)
                      (min_v (vignette params)) (max_v (vignette params));
            c = c\<lparr>randomCalls := Suc (randomCalls c)\<rparr>
        in if value > 0 then
             c\<lparr>filters := filters c @ [''vignette=angle=PI/4:eval=frame''],
               appliedFilters := appliedFilters c @ [''vignette='' @ toFixed rt value 3]\<rparr>
           else c
      else c)"

definition waveformShift_step :: "runtime \<Rightarrow> VideoProcessingParameters \<Rightarrow> chain \<Rightarrow> chain" where
  "waveformShift_step rt params c =
     (if enabled (waveformShift params) then
        let value = getRandomValue rt (randomCalls c)
                      (min_v (waveformShift params)) (max_v (waveformShift params));
            c = c\<lparr>randomCalls := Suc (randomCalls c)\<rparr>
        in if value > 0 then
             let shift = \<lfloor>value * 3\<rfloor>
             in c\<lparr>filters := filters c @
                    [''geq=r='' @ [CHR 0x27] @ ''r(X+'' @ Number_toString rt shift @ '',Y)'' @ [CHR 0x27] @
                     '':g='' @ [CHR 0x27] @ ''g(X,Y+'' @ Number_toString rt shift @ '')'' @ [CHR 0x27] @
                     '':b='' @ [CHR 0x27] @ ''b(X,Y)'' @ [CHR 0x27]],
                  appliedFilters := appliedFilters c @ [''waveformShift='' @ toFixed rt value 3]\<rparr>
           else c
      else c)"

definition randomPixelSize_step :: "runtime \<Rightarrow> VideoProcessingParameters \<Rightarrow> chain \<Rightarrow> chain" where
  "randomPixelSize_step rt params c =
     (if enabled (randomPixelSize params) then
        let baseHeight = 720 + \<lfloor>Math_random rt (randomCalls c) * 360\<rfloor>;
            width = \<lfloor>real_of_int baseHeight * 9 / 16 / 2\<rfloor> * 2;
            height = \<lfloor>real_of_int baseHeight / 2\<rfloor> * 2
        in c\<lparr>filters := filters c @
               [''scale='' @ Number_toString rt width @ '':'' @ Number_toString rt height],
             appliedFilters := appliedFilters c @
               [''randomSize='' @ Number_toString rt width @ ''x'' @ Number_toString rt height],
             randomCalls := Suc (randomCalls c)\<rparr>
      else c)"

text \<open>
  In \<^verbatim>\<open>(1 / speedValue).toFixed(3)\<close> a speed of 0 gives JavaScript's
  \<^verbatim>\<open>Infinity\<close>, which \<^verbatim>\<open>toFixed\<close> renders as that word; the reals have no
  such value, so the case is written out.
\<close>

definition speed_step :: "runtime \<Rightarrow> VideoProcessingParameters \<Rightarrow> chain \<Rightarrow> chain" where
  "speed_step rt params c =
     (if enabled (speed params) then
        let speedValue = getRandomValue rt (randomCalls c)
                           (min_v (speed params)) (max_v (speed params));
            pts = (if speedValue = 0 then ''Infinity'' else toFixed rt (1 / speedValue) 3)
        in c\<lparr>filters := filters c @ [''setpts='' @ pts @ ''*PTS''],
             appliedFilters := appliedFilters c @ [''speed='' @ toFixed rt speedValue 3 @ ''x''],
             randomCalls := Suc (randomCalls c)\<rparr>
      else c)"

definition framerate_step :: "runtime \<Rightarrow> VideoProcessingParameters \<Rightarrow> chain \<Rightarrow> chain" where
  "framerate_step rt params c =
     (if enabled (framerate params) then
        let fps = \<lfloor>getRandomValue rt (randomCalls c)
                    (min_v (framerate params)) (max_v (framerate params))\<rfloor>
        in c\<lparr>filters := filters c @ [''fps='' @ Number_toString rt fps],
             appliedFilters := appliedFilters c @ [''fps='' @ Number_toString rt fps],
             randomCalls := Suc (randomCalls c)\<rparr>
      else c)"

definition buildFilterChain :: "runtime \<Rightarrow> nat \<Rightarrow> VideoProcessingParameters \<Rightarrow> chain" where
  "buildFilterChain rt k params =
     fold (\<lambda>step c. step rt params c)
       [saturation_step, contrast_step, brightness_step, gamma_step, eq_step,
        noise_step, rotation_step, flip_step, zoom_step, pixelShift_step, vignette_step,
        waveformShift_step, randomPixelSize_step, speed_step, framerate_step]
       \<lparr>eqParams = [], filters = [], appliedFilters = [], randomCalls = k\<rparr>"

section \<open>The filter string of the legacy processor\<close>

text \<open>
  \<^verbatim>\<open>VideoProcessor.buildFilterString\<close>: the local array \<^verbatim>\<open>filters\<close> and the
  count of \<^verbatim>\<open>Math.random()\<close> calls, block by block, then the joined string.
\<close>

type_synonym legacy_chain = "string list \<times> nat"

definition legacy_saturation :: "runtime \<Rightarrow> VideoProcessingParameters \<Rightarrow> legacy_chain \<Rightarrow> legacy_chain" where
  "legacy_saturation rt params = (\<lambda>(fs, k).
     if enabled (saturation params) then
       let satValue = getRandomValue rt k (min_v (saturation params)) (max_v (saturation params))
       in (fs @ [''eq=saturation='' @ toFixed rt satValue 2], Suc k)
     else (fs, k))"

definition legacy_contrast :: "runtime \<Rightarrow> VideoProcessingParameters \<Rightarrow> legacy_chain \<Rightarrow> legacy_chain" where
  "legacy_contrast rt params = (\<lambda>(fs, k).
     if enabled (contrast params) then
       let contrastValue = getRandomValue rt k (min_v (contrast params)) (max_v (contrast params))
       in (fs @ [''eq=contrast='' @ toFixed rt contrastValue 2], Suc k)
     else (fs, k))"

definition legacy_brightness :: "runtime \<Rightarrow> VideoProcessingParameters \<Rightarrow> legacy_chain \<Rightarrow> legacy_chain" where
  "legacy_brightness rt params = (\<lambda>(fs, k).
     if enabled (brightness params) then
       let brightnessValue = getRandomValue rt k (min_v (brightness params)) (max_v (brightness params))
       in (fs @ [''eq=brightness='' @ toFixed rt brightnessValue 2], Suc k)
     else (fs, k))"

definition legacy_gamma :: "runtime \<Rightarrow> VideoProcessingParameters \<Rightarrow> legacy_chain \<Rightarrow> legacy_chain" where
  "legacy_gamma rt params = (\<lambda>(fs, k).
     if enabled (gamma params) then
       let gammaValue = getRandomValue rt k (min_v (gamma params)) (max_v (gamma params))
       in (fs @ [''eq=gamma='' @ toFixed rt gammaValue 2], Suc k)
     else (fs, k))"

definition legacy_noise :: "runtime \<Rightarrow> VideoProcessingParameters \<Rightarrow> legacy_chain \<Rightarrow> legacy_chain" where
  "legacy_noise rt params = (\<lambda>(fs, k).
     if enabled (noise params) then
       let noiseValue = getRandomValue rt k (min_v (noise params)) (max_v (noise params))
       in (fs @ [''noise=alls='' @ Number_toString rt \<lfloor>noiseValue * 100\<rfloor> @ '':allf=t''], Suc k)
     else (fs, k))"

definition legacy_rotation :: "runtime \<Rightarrow> VideoProcessingParameters \<Rightarrow> legacy_chain \<Rightarrow> legacy_chain" where
  "legacy_rotation rt params = (\<lambda>(fs, k).
     if enabled (rotation params) then
       let rotationValue = getRandomValue rt k (min_v (rotation params)) (max_v (rotation params));
           radians = (rotationValue * Math_PI) / 180
       in (fs @ [''rotate='' @ toFixed rt radians 4], Suc k)
     else (fs, k))"

definition legacy_flip :: "runtime \<Rightarrow> VideoProcessingParameters \<Rightarrow> legacy_chain \<Rightarrow> legacy_chain" where
  "legacy_flip rt params = (\<lambda>(fs, k).
     if enabled (flipHorizontally params) then (fs @ [''hflip''], k) else (fs, k))"

definition legacy_zoom :: "runtime \<Rightarrow> VideoProcessingParameters \<Rightarrow> legacy_chain \<Rightarrow> legacy_chain" where
  "legacy_zoom rt params = (\<lambda>(fs, k).
     if enabled (zoom params) then
       let zoomValue = getRandomValue rt k (min_v (zoom params)) (max_v (zoom params));
           scale = 1 + zoomValue
       in (fs @ [''scale=iw*'' @ toFixed rt scale 2 @ '':ih*'' @ toFixed rt scale 2], Suc k)
     else (fs, k))"

definition legacy_pixelShift :: "runtime \<Rightarrow> VideoProcessingParameters \<Rightarrow> legacy_chain \<Rightarrow> legacy_chain" where
  "legacy_pixelShift rt params = (\<lambda>(fs, k).
     if enabled (pixelShift params) then
       let shiftValue = getRandomValue rt k (min_v (pixelShift params)) (max_v (pixelShift params));
           cropPixels = \<lfloor>shiftValue * 10\<rfloor>
       in if cropPixels > 0 then
            (fs @ [''crop=iw-'' @ Number_toString rt cropPixels @
                   '':ih-'' @ Number_toString rt cropPixels @
                   '':'' @ Number_toString rt \<lfloor>real_of_int cropPixels / 2\<rfloor> @
                   '':'' @ Number_toString rt \<lfloor>real_of_int cropPixels / 2\<rfloor>], Suc k)
          else (fs, Suc k)
     else (fs, k))"

definition legacy_vignette :: "runtime \<Rightarrow> VideoProcessingParameters \<Rightarrow> legacy_chain \<Rightarrow> legacy_chain" where
  "legacy_vignette rt params = (\<lambda>(fs, k).
     if enabled (vignette params) then
       let vignetteValue = getRandomValue rt k (min_v (vignette params)) (max_v (vignette params))
       in (fs @ [''vignette=PI/4+'' @ toFixed rt vignetteValue 2], Suc k)
     else (fs, k))"

definition legacy_filters :: "runtime \<Rightarrow> nat \<Rightarrow> VideoProcessingParameters \<Rightarrow> legacy_chain" where
  "legacy_filters rt k params =
     fold (\<lambda>step c. step rt params c)
       [legacy_saturation, legacy_contrast, legacy_brightness, legacy_gamma, legacy_noise,
        legacy_rotation, legacy_flip, legacy_zoom, legacy_pixelShift, legacy_vignette]
       ([], k)"

definition buildFilterString :: "runtime \<Rightarrow> nat \<Rightarrow> VideoProcessingParameters \<Rightarrow> string \<times> nat" where
  "buildFilterString rt k params =
     (let (fs, k') = legacy_filters rt k params
      in (if length fs > 0 then join fs '','' else [], k'))"

section \<open>Files, results and the transcoding engine\<close>

text \<open>
  A \<^verbatim>\<open>Blob\<close> is its bytes and its MIME type, a \<^verbatim>\<open>File\<close> a named blob; the
  \<^verbatim>\<open>size\<close> of either is the number of its bytes. An object URL made by
  \<^verbatim>\<open>URL.createObjectURL\<close> is modelled by the blob it refers to.
\<close>

record Blob =
  bytes :: "nat list"
  mime :: string

record File = Blob +
  name :: string

definition size_b :: "'a Blob_scheme \<Rightarrow> nat" where
  "size_b b = length (bytes b)"

definition blob_of :: "File \<Rightarrow> Blob" where
  "blob_of f = \<lparr>bytes = bytes f, mime = mime f\<rparr>"

record result_metadata =
  duration :: real
  size_m :: nat
  format :: string
  processing_time :: int

record ProcessingResult =
  output_url :: Blob
  applied_filters :: "string list"
  metadata :: result_metadata

text \<open>The exceptions of the processors, as values.\<close>

datatype failure =
  NotInitialized \<comment> \<open>\<^verbatim>\<open>new Error('FFmpeg not initialized')\<close>\<close>
| InitializationFailed \<comment> \<open>\<^verbatim>\<open>FFmpeg initialization failed: ...\<close>, or the rejection of \<^verbatim>\<open>load\<close>\<close>
| EngineRejected \<comment> \<open>a rejection of \<^verbatim>\<open>arrayBuffer\<close>, \<^verbatim>\<open>writeFile\<close>, \<^verbatim>\<open>exec\<close>, \<^verbatim>\<open>readFile\<close> or \<^verbatim>\<open>deleteFile\<close>\<close>

text \<open>
  The engine is the class \<^verbatim>\<open>FFmpeg\<close> of the library \<^verbatim>\<open>@ffmpeg/ffmpeg\<close>, which is
  not part of the repository. Its behaviour is a parameter: \<open>eng n file args\<close> tells
  what the \<open>n\<close>-th use of the engine does on this input and argument list. It either
  rejects before \<^verbatim>\<open>exec\<close> starts (reading the file or \<^verbatim>\<open>writeFile\<close>), or it runs:
  it raises progress events with the given \<^verbatim>\<open>progress\<close> values and then either
  yields the bytes read back from the output file or rejects; the last component is what
  \<^verbatim>\<open>Date.now() - startTime\<close> measures.

  Of the engine object the model keeps the progress listeners. \<^verbatim>\<open>on('progress', f)\<close>
  appends \<open>f\<close> to them and nothing in the sources removes one; each progress event calls
  every registered listener, in the order of registration. A listener is a closure:
  \<open>Plain f\<close> calls \<open>f\<close> on every event (the enhanced processor), \<open>Throttled n f\<close>
  carries the captured \<^verbatim>\<open>progressCounter\<close> \<open>n\<close> and calls \<open>f\<close> on every tenth event
  (the legacy processor). What a call of the user's callback does is an element of
  the type \<open>'e\<close>; the model records these calls in their order.
\<close>

datatype engine_run =
  RejectedEarly
| Ran "real list" "nat list option" int

type_synonym engine = "nat \<Rightarrow> File \<Rightarrow> string list \<Rightarrow> engine_run"

datatype 'e listener =
  Plain "real \<Rightarrow> 'e list"
| Throttled nat "real \<Rightarrow> 'e list"

fun deliver :: "'e listener \<Rightarrow> real \<Rightarrow> 'e listener \<times> 'e list" where
  "deliver (Plain f) p = (Plain f, f p)"
| "deliver (Throttled n f) p = (Throttled (Suc n) f, if Suc n mod 10 = 0 then f p else [])"

fun deliver_all :: "'e listener list \<Rightarrow> real \<Rightarrow> 'e listener list \<times> 'e list" where
  "deliver_all [] p = ([], [])"
| "deliver_all (l # ls) p =
     (let (l', ev) = deliver l p; (ls', evs) = deliver_all ls p in (l' # ls', ev @ evs))"

fun run_ticks :: "'e listener list \<Rightarrow> real list \<Rightarrow> 'e listener list \<times> 'e list" where
  "run_ticks ls [] = (ls, [])"
| "run_ticks ls (p # ps) =
     (let (ls', ev) = deliver_all ls p; (ls'', evs) = run_ticks ls' ps in (ls'', ev @ evs))"

text \<open>
  The state of a processor object: the fields \<^verbatim>\<open>ffmpeg\<close> (\<^verbatim>\<open>null\<close>, or the engine
  object with its listeners) and \<^verbatim>\<open>isLoaded\<close> of both classes, and
  \<^verbatim>\<open>supportsWebCodecs\<close> of the enhanced one. Two counters of the environment travel
  with it: the calls of \<^verbatim>\<open>Math.random()\<close> and the uses of the engine so far.
\<close>

record 'e VideoProcessor =
  ffmpeg :: "'e listener list option"
  isLoaded :: bool
  mathRandomCalls :: nat
  engineCalls :: nat

record 'e VideoProcessorEnhanced = "'e VideoProcessor" +
  supportsWebCodecs :: bool

section \<open>The enhanced processor\<close>

text \<open>
  The constructor runs \<^verbatim>\<open>detectWebCodecs\<close>; whether the window has the three codec
  classes is the argument.
\<close>

definition newVideoProcessorEnhanced :: "bool \<Rightarrow> 'e VideoProcessorEnhanced" where
  "newVideoProcessorEnhanced codecs =
     \<lparr>ffmpeg = None, isLoaded = False, mathRandomCalls = 0, engineCalls = 0,
      supportsWebCodecs = codecs\<rparr>"

text \<open>\<^verbatim>\<open>initialize\<close>; \<open>loads\<close> tells whether \<^verbatim>\<open>ffmpeg.load\<close> resolves.\<close>

definition initialize ::
  "bool \<Rightarrow> 'e VideoProcessorEnhanced \<Rightarrow> 'e VideoProcessorEnhanced \<times> (failure + unit)" where
  "initialize loads s =
     (if isLoaded s then (s, Inr ())
      else
        let s = s\<lparr>ffmpeg := Some []\<rparr>
        in if loads then (s\<lparr>isLoaded := True\<rparr>, Inr ()) else (s, Inl InitializationFailed))"

record capability_set =
  cap_ffmpeg :: bool
  cap_webcodecs :: bool
  cap_canvas :: bool

definition capabilities :: "'e VideoProcessorEnhanced \<Rightarrow> capability_set" where
  "capabilities s =
     \<lparr>cap_ffmpeg = isLoaded s, cap_webcodecs = supportsWebCodecs s, cap_canvas = True\<rparr>"

definition processWithWebCodecs ::
  "File \<Rightarrow> VideoProcessingParameters \<Rightarrow> (real \<Rightarrow> 'e list) option \<Rightarrow> ProcessingResult" where
  "processWithWebCodecs inputFile params onProgress =
     \<lparr>output_url = blob_of inputFile,
      applied_filters = [''webcodecs-fallback''],
      metadata = \<lparr>duration = 0, size_m = size_b inputFile, format = ''original'',
                  processing_time = 100\<rparr>\<rparr>"

definition processWithCanvas ::
  "File \<Rightarrow> VideoProcessingParameters \<Rightarrow> (real \<Rightarrow> 'e list) option \<Rightarrow> ProcessingResult" where
  "processWithCanvas inputFile params onProgress =
     \<lparr>output_url = blob_of inputFile,
      applied_filters = [''canvas-fallback''],
      metadata = \<lparr>duration = 0, size_m = size_b inputFile, format = ''original'',
                  processing_time = 200\<rparr>\<rparr>"

text \<open>
  The argument list of the full-engine path of \<^verbatim>\<open>processVideo\<close>, with the audit list
  and the count of \<^verbatim>\<open>Math.random()\<close> calls after it.
\<close>

definition enhancedArgs ::
  "runtime \<Rightarrow> nat \<Rightarrow> VideoProcessingParameters \<Rightarrow> string list \<times> string list \<times> nat" where
  "enhancedArgs rt k params =
     (let args = [''-i'', ''input.mp4''];
          (args, k) =
            (if enabled (trim params) then
               let trimValue = getRandomValue rt k (min_v (trim params)) (max_v (trim params))
               in (args @ [''-ss'', toFixed rt trimValue 2], Suc k)
             else (args, k));
          c = buildFilterChain rt k params;
          k = randomCalls c;
          args = (if length (filters c) > 0 then args @ [''-vf'', join (filters c) '',''] else args);
          args = args @ [''-crf'', Number_toString rt (crf (videoQuality params))];
          (args, k) =
            (if enabled (videoBitrate params) then
               let bitrate = \<lfloor>getRandomValue rt k (min_v (videoBitrate params))
                                (max_v (videoBitrate params))\<rfloor>
               in (args @ [''-b:v'', Number_toString rt bitrate @ ''k''], Suc k)
             else (args, k));
          (args, k) =
            (if enabled (audioBitrate params) then
               let audioBitrate = \<lfloor>getRandomValue rt k (min_v (audioBitrate params))
                                     (max_v (audioBitrate params))\<rfloor>
               in (args @ [''-b:a'', Number_toString rt audioBitrate @ ''k''], Suc k)
             else (args, k));
          (args, applied, k) =
            (if enabled (volume params) then
               let volumeValue = getRandomValue rt k (min_v (volume params)) (max_v (volume params))
               in (args @ [''-af'', ''volume='' @ toFixed rt volumeValue 3],
                   appliedFilters c @ [''volume='' @ toFixed rt volumeValue 3], Suc k)
             else (args, appliedFilters c, k));
          args = args @ [''-c:v'', ''libvpx-vp9'', ''-c:a'', ''libopus''];
          args = args @ [''output.webm'']
      in (args, applied, k))"

definition processVideo ::
  "runtime \<Rightarrow> engine \<Rightarrow> 'e VideoProcessorEnhanced \<Rightarrow> File \<Rightarrow> VideoProcessingParameters \<Rightarrow>
   (real \<Rightarrow> 'e list) option \<Rightarrow>
   'e VideoProcessorEnhanced \<times> 'e list \<times> (failure + ProcessingResult)" where
  "processVideo rt eng s inputFile params onProgress =
     (if \<not> isLoaded s then
        if supportsWebCodecs s
        then (s, [], Inr (processWithWebCodecs inputFile params onProgress))
        else (s, [], Inr (processWithCanvas inputFile params onProgress))
      else
        case ffmpeg s of
          None \<Rightarrow> (s, [], Inl NotInitialized)
        | Some listeners \<Rightarrow>
            let (args, applied, k) = enhancedArgs rt (mathRandomCalls s) params
            in case eng (engineCalls s) inputFile args of
                 RejectedEarly \<Rightarrow> (s\<lparr>engineCalls := Suc (engineCalls s)\<rparr>, [], Inl EngineRejected)
               | Ran ticks data elapsed \<Rightarrow>
                   let listeners =
                         (case onProgress of
                            None \<Rightarrow> listeners
                          | Some f \<Rightarrow> listeners @ [Plain (\<lambda>progress. f (progress * 100))]);
                       (listeners, calls) = run_ticks listeners ticks;
                       s = s\<lparr>ffmpeg := Some listeners, mathRandomCalls := k,
                              engineCalls := Suc (engineCalls s)\<rparr>
                   in case data of
                        None \<Rightarrow> (s, calls, Inl EngineRejected)
                      | Some data \<Rightarrow>
                          (s, calls,
                           Inr \<lparr>output_url = \<lparr>bytes = data, mime = ''video/webm''\<rparr>,
                                applied_filters = applied,
                                metadata = \<lparr>duration = 0, size_m = length data,
                                            format = ''webm'', processing_time = elapsed\<rparr>\<rparr>))"

text \<open>
  \<^verbatim>\<open>generateVariations\<close>: the loop \<^verbatim>\<open>for (let i = 0; i < numberOfVariations; i++)\<close>
  with the results so far and the callback calls so far. A rejection of
  \<^verbatim>\<open>processVideo\<close> leaves the loop and the method; the local \<^verbatim>\<open>results\<close> are lost.
  The count is a natural number: the pages set it with \<^verbatim>\<open>parseInt(...) || 1\<close>, and
  a negative count runs the loop as often as 0 does.
\<close>

function generateVariations_loop ::
  "runtime \<Rightarrow> engine \<Rightarrow> File \<Rightarrow> VideoProcessingParameters \<Rightarrow> nat \<Rightarrow>
   (nat \<Rightarrow> real \<Rightarrow> 'e) option \<Rightarrow> nat \<Rightarrow> 'e VideoProcessorEnhanced \<Rightarrow> ProcessingResult list \<Rightarrow>
   'e VideoProcessorEnhanced \<times> 'e list \<times> (failure + ProcessingResult list)" where
  "generateVariations_loop rt eng inputFile params numberOfVariations onProgress i s results =
     (if i < numberOfVariations then
        case processVideo rt eng s inputFile params
               (Some (\<lambda>progress. case onProgress of None \<Rightarrow> [] | Some cb \<Rightarrow> [cb (i + 1) progress])) of
          (s, calls, Inl e) \<Rightarrow> (s, calls, Inl e)
        | (s, calls, Inr result) \<Rightarrow>
            (case generateVariations_loop rt eng inputFile params numberOfVariations onProgress
                    (i + 1) s (results @ [result]) of
               (s, calls', r) \<Rightarrow> (s, calls @ calls', r))
      else (s, [], Inr results))"
  by pat_completeness auto
termination
  by (relation "measure (\<lambda>(rt, eng, inputFile, params, n, onProgress, i, s, results). n - i)") auto

declare generateVariations_loop.simps [simp del]

definition generateVariations ::
  "runtime \<Rightarrow> engine \<Rightarrow> 'e VideoProcessorEnhanced \<Rightarrow> File \<Rightarrow> VideoProcessingParameters \<Rightarrow> nat \<Rightarrow>
   (nat \<Rightarrow> real \<Rightarrow> 'e) option \<Rightarrow>
   'e VideoProcessorEnhanced \<times> 'e list \<times> (failure + ProcessingResult list)" where
  "generateVariations rt eng s inputFile params numberOfVariations onProgress =
     generateVariations_loop rt eng inputFile params numberOfVariations onProgress 0 s []"

section \<open>The legacy processor\<close>

text \<open>\<^verbatim>\<open>Array.prototype.indexOf\<close>: the first index of an element, or \<open>-1\<close>.\<close>

fun indexOf :: "'a list \<Rightarrow> 'a \<Rightarrow> int" where
  "indexOf [] x = - 1"
| "indexOf (y # ys) x =
     (if y = x then 0 else let j = indexOf ys x in if j < 0 then - 1 else j + 1)"

text \<open>
  \<^verbatim>\<open>args[j] += t\<close> for an index \<open>0 \<le> j \<le> args.length\<close>: inside the array the text is
  appended to the element; at \<open>j = args.length\<close> the element is \<^verbatim>\<open>undefined\<close> and
  the array grows by \<^verbatim>\<open>"undefined" + t\<close>. The index here is \<open>indexOf + 1\<close>, which
  is never larger.
\<close>

definition append_at :: "string list \<Rightarrow> int \<Rightarrow> string \<Rightarrow> string list" where
  "append_at args j t =
     (if nat j < length args then args[nat j := args ! nat j @ t]
      else args @ [''undefined'' @ t])"

text \<open>
  The argument list of the legacy \<^verbatim>\<open>processVideo\<close> and the count of
  \<^verbatim>\<open>Math.random()\<close> calls after it. A non-empty string is what
  \<^verbatim>\<open>if (filterString)\<close> tests.
\<close>

definition legacyArgs ::
  "runtime \<Rightarrow> nat \<Rightarrow> VideoProcessingParameters \<Rightarrow> string list \<times> nat" where
  "legacyArgs rt k params =
     (let args = [''-i'', ''input.mp4''];
          (filterString, k) = buildFilterString rt k params;
          args = (if filterString \<noteq> [] then args @ [''-vf'', filterString] else args);
          args = args @ [''-crf'', Number_toString rt (crf (videoQuality params))];
          (args, k) =
            (if enabled (videoBitrate params) then
               let bitrate = getRandomValue rt k (min_v (videoBitrate params))
                               (max_v (videoBitrate params))
               in (args @ [''-b:v'', Number_toString rt \<lfloor>bitrate\<rfloor> @ ''k''], Suc k)
             else (args, k));
          (args, k) =
            (if enabled (audioBitrate params) then
               let audioBitrate = getRandomValue rt k (min_v (audioBitrate params))
                                    (max_v (audioBitrate params))
               in (args @ [''-b:a'', Number_toString rt \<lfloor>audioBitrate\<rfloor> @ ''k''], Suc k)
             else (args, k));
          (args, k) =
            (if enabled (framerate params) then
               let fps = getRandomValue rt k (min_v (framerate params)) (max_v (framerate params))
               in (args @ [''-r'', Number_toString rt \<lfloor>fps\<rfloor>], Suc k)
             else (args, k));
          (args, k) =
            (if enabled (speed params) then
               let speedValue = getRandomValue rt k (min_v (speed params)) (max_v (speed params));
                   filterPrefix = (if filterString \<noteq> [] then '','' else []);
                   speedFilter = filterPrefix @ ''setpts='' @
                     (if speedValue = 0 then ''Infinity'' else toFixed rt (1 / speedValue) 3) @
                     ''*PTS''
               in if filterString \<noteq> []
                  then (append_at args (indexOf args filterString + 1) speedFilter, Suc k)
                  else (args @ [''-vf'', drop 1 speedFilter], Suc k)
             else (args, k));
          (args, k) =
            (if enabled (volume params) then
               let volumeValue = getRandomValue rt k (min_v (volume params)) (max_v (volume params))
               in (args @ [''-af'', ''volume='' @ toFixed rt volumeValue 2], Suc k)
             else (args, k));
          (args, k) =
            (if enabled (trim params) then
               let trimValue = getRandomValue rt k (min_v (trim params)) (max_v (trim params))
               in (args @ [''-ss'', toFixed rt trimValue 2], Suc k)
             else (args, k));
          args = args @ [''output.mp4'']
      in (args, k))"

definition newVideoProcessor :: "'e VideoProcessor" where
  "newVideoProcessor = \<lparr>ffmpeg = None, isLoaded = False, mathRandomCalls = 0, engineCalls = 0\<rparr>"

definition legacy_initialize ::
  "bool \<Rightarrow> 'e VideoProcessor \<Rightarrow> 'e VideoProcessor \<times> (failure + unit)" where
  "legacy_initialize loads s =
     (if isLoaded s then (s, Inr ())
      else
        let s = s\<lparr>ffmpeg := Some []\<rparr>
        in if loads then (s\<lparr>isLoaded := True\<rparr>, Inr ()) else (s, Inl InitializationFailed))"

definition legacy_processVideo ::
  "runtime \<Rightarrow> engine \<Rightarrow> 'e VideoProcessor \<Rightarrow> File \<Rightarrow> VideoProcessingParameters \<Rightarrow>
   (real \<Rightarrow> 'e list) option \<Rightarrow> 'e VideoProcessor \<times> 'e list \<times> (failure + Blob)" where
  "legacy_processVideo rt eng s inputFile params onProgress =
     (case ffmpeg s of
        None \<Rightarrow> (s, [], Inl NotInitialized)
      | Some listeners \<Rightarrow>
          let (args, k) = legacyArgs rt (mathRandomCalls s) params
          in case eng (engineCalls s) inputFile args of
               RejectedEarly \<Rightarrow> (s\<lparr>engineCalls := Suc (engineCalls s)\<rparr>, [], Inl EngineRejected)
             | Ran ticks data elapsed \<Rightarrow>
                 let listeners =
                       (case onProgress of
                          None \<Rightarrow> listeners
                        | Some f \<Rightarrow> listeners @ [Throttled 0 (\<lambda>progress. f (progress * 100))]);
                     (listeners, calls) = run_ticks listeners ticks;
                     s = s\<lparr>ffmpeg := Some listeners, mathRandomCalls := k,
                            engineCalls := Suc (engineCalls s)\<rparr>
                 in case data of
                      None \<Rightarrow> (s, calls, Inl EngineRejected)
                    | Some data \<Rightarrow> (s, calls, Inr \<lparr>bytes = data, mime = ''video/mp4''\<rparr>))"

function legacy_generateVariations_loop ::
  "runtime \<Rightarrow> engine \<Rightarrow> File \<Rightarrow> VideoProcessingParameters \<Rightarrow> nat \<Rightarrow>
   (nat \<Rightarrow> real \<Rightarrow> 'e) option \<Rightarrow> nat \<Rightarrow> 'e VideoProcessor \<Rightarrow> Blob list \<Rightarrow>
   'e VideoProcessor \<times> 'e list \<times> (failure + Blob list)" where
  "legacy_generateVariations_loop rt eng inputFile params numberOfVariations onProgress i s variations =
     (if i < numberOfVariations then
        case legacy_processVideo rt eng s inputFile params
               (Some (\<lambda>progress. case onProgress of None \<Rightarrow> [] | Some cb \<Rightarrow> [cb (i + 1) progress])) of
          (s, calls, Inl e) \<Rightarrow> (s, calls, Inl e)
        | (s, calls, Inr variationBlob) \<Rightarrow>
            (case legacy_generateVariations_loop rt eng inputFile params numberOfVariations
                    onProgress (i + 1) s (variations @ [variationBlob]) of
               (s, calls', r) \<Rightarrow> (s, calls @ calls', r))
      else (s, [], Inr variations))"
  by pat_completeness auto
termination
  by (relation "measure (\<lambda>(rt, eng, inputFile, params, n, onProgress, i, s, variations). n - i)")
    auto

declare legacy_generateVariations_loop.simps [simp del]

definition legacy_generateVariations ::
  "runtime \<Rightarrow> engine \<Rightarrow> 'e VideoProcessor \<Rightarrow> File \<Rightarrow> VideoProcessingParameters \<Rightarrow> nat \<Rightarrow>
   (nat \<Rightarrow> real \<Rightarrow> 'e) option \<Rightarrow> 'e VideoProcessor \<times> 'e list \<times> (failure + Blob list)" where
  "legacy_generateVariations rt eng s inputFile params numberOfVariations onProgress =
     legacy_generateVariations_loop rt eng inputFile params numberOfVariations onProgress 0 s []"

section \<open>The batch queue\<close>

text \<open>
  \<^verbatim>\<open>BatchVideoProcessor\<close>: the queue is React state, changed by
  \<^verbatim>\<open>setQueue(prev => ...)\<close>; such an updater is a function on queues, and the progress
  callback given to the legacy \<^verbatim>\<open>generateVariations\<close> makes one per call. The loop of
  \<^verbatim>\<open>processQueue\<close> runs over the queue as it was when the method started. The
  fields \<open>id_q\<close> and \<open>file_q\<close> are \<^verbatim>\<open>id\<close> and \<^verbatim>\<open>file\<close> of the source, and
  \<open>isProcessing\<close> is the component's state \<^verbatim>\<open>processing\<close>.
\<close>

datatype status = pending | processing | completed | error

record QueueItem =
  id_q :: string
  file_q :: File
  status :: status
  progress :: real
  variations :: "Blob list"

type_synonym updater = "QueueItem list \<Rightarrow> QueueItem list"

record batch =
  queue :: "QueueItem list"
  isProcessing :: bool
  numberOfVariations :: nat
  ffmpegLoaded :: bool
  videoProcessor :: "updater VideoProcessor"

definition set_processing :: "QueueItem \<Rightarrow> updater" where
  "set_processing item prev =
     map (\<lambda>q. if id_q q = id_q item then q\<lparr>status := processing, progress := 0\<rparr> else q) prev"

definition set_progress :: "QueueItem \<Rightarrow> nat \<Rightarrow> real \<Rightarrow> updater" where
  "set_progress item variation percent prev =
     map (\<lambda>q. if id_q q = id_q item then q\<lparr>progress := percent\<rparr> else q) prev"

definition set_completed :: "QueueItem \<Rightarrow> Blob list \<Rightarrow> updater" where
  "set_completed item vs prev =
     map (\<lambda>q. if id_q q = id_q item
              then q\<lparr>status := completed, variations := vs, progress := 100\<rparr> else q) prev"

definition set_error :: "QueueItem \<Rightarrow> updater" where
  "set_error item prev =
     map (\<lambda>q. if id_q q = id_q item then q\<lparr>status := error\<rparr> else q) prev"

text \<open>
  One round of the loop per item. With the engine loaded the item goes through
  \<^verbatim>\<open>generateVariations\<close>, and a rejection is caught and marks this item; without it the
  processing is simulated with copies of the file (reading the file is taken to
  succeed, and the progress updates of the simulation, each overwritten by the final
  one, are left out).
\<close>

fun processQueue_loop ::
  "runtime \<Rightarrow> engine \<Rightarrow> VideoProcessingParameters \<Rightarrow> nat \<Rightarrow> bool \<Rightarrow> QueueItem list \<Rightarrow>
   updater VideoProcessor \<times> QueueItem list \<Rightarrow> updater VideoProcessor \<times> QueueItem list" where
  "processQueue_loop rt eng params n loaded [] (vp, q) = (vp, q)"
| "processQueue_loop rt eng params n loaded (item # items) (vp, q) =
     (let q = set_processing item q
      in if loaded then
           case legacy_generateVariations rt eng vp (file_q item) params n
                  (Some (set_progress item)) of
             (vp, calls, Inr processedVariations) \<Rightarrow>
               processQueue_loop rt eng params n loaded items
                 (vp, set_completed item processedVariations (fold (\<lambda>u q. u q) calls q))
           | (vp, calls, Inl e) \<Rightarrow>
               processQueue_loop rt eng params n loaded items
                 (vp, set_error item (fold (\<lambda>u q. u q) calls q))
         else
           processQueue_loop rt eng params n loaded items
             (vp, set_completed item (replicate n (blob_of (file_q item))) q))"

definition processQueue ::
  "runtime \<Rightarrow> engine \<Rightarrow> VideoProcessingParameters \<Rightarrow> batch \<Rightarrow> batch" where
  "processQueue rt eng params b =
     (if length (queue b) = 0 \<or> isProcessing b then b
      else
        let (vp, q) = processQueue_loop rt eng params (numberOfVariations b) (ffmpegLoaded b)
                        (queue b) (videoProcessor b, queue b)
        in b\<lparr>queue := q, isProcessing := False, videoProcessor := vp\<rparr>)"

text \<open>
  Whether the \<^verbatim>\<open>generateVariations\<close> call of each item of the loop resolves, in the
  order of the items; the processor state goes from one call to the next.
\<close>

fun item_outcomes ::
  "runtime \<Rightarrow> engine \<Rightarrow> VideoProcessingParameters \<Rightarrow> nat \<Rightarrow> QueueItem list \<Rightarrow>
   updater VideoProcessor \<Rightarrow> bool list" where
  "item_outcomes rt eng params n [] vp = []"
| "item_outcomes rt eng params n (item # items) vp =
     (case legacy_generateVariations rt eng vp (file_q item) params n (Some (set_progress item)) of
        (vp', calls, r) \<Rightarrow>
          (case r of Inl e \<Rightarrow> False | Inr vs \<Rightarrow> True) # item_outcomes rt eng params n items vp')"

section \<open>Concrete inputs\<close>

text \<open>A runtime for concrete evaluations: every draw of \<^verbatim>\<open>Math.random()\<close> is \<open>1/2\<close>.\<close>

definition halfRuntime :: runtime where
  "halfRuntime = \<lparr>Math_random = (\<lambda>k. 1 / 2), bigToString = (\<lambda>x. ''1e+21'')\<rparr>"

definition fixedDraw :: "real \<Rightarrow> runtime" where
  "fixedDraw r = \<lparr>Math_random = (\<lambda>k. r), bigToString = (\<lambda>x. ''1e+21'')\<rparr>"

text \<open>
  An engine that always runs, raises two progress events and returns the input bytes;
  one that does the same but rejects on its second use; a small file; processors and a
  queue for concrete evaluations.
\<close>

definition steadyEngine :: engine where
  "steadyEngine n inputFile args = Ran [1 / 2, 1] (Some (bytes inputFile)) 1000"

definition secondFailsEngine :: engine where
  "secondFailsEngine n inputFile args =
     (if n = 1 then Ran [1 / 2] None 1000 else Ran [1 / 2, 1] (Some (bytes inputFile)) 1000)"

definition sampleFile :: File where
  "sampleFile =
     \<lparr>bytes = [0, 0, 0, 24, 102, 116, 121, 112], mime = ''video/mp4'', name = ''clip.mp4''\<rparr>"

definition readyProcessor :: "(nat \<times> real) VideoProcessorEnhanced" where
  "readyProcessor = fst (initialize True (newVideoProcessorEnhanced False))"

definition fallbackProcessor :: "(nat \<times> real) VideoProcessorEnhanced" where
  "fallbackProcessor = fst (initialize False (newVideoProcessorEnhanced False))"

definition sampleItem :: "string \<Rightarrow> QueueItem" where
  "sampleItem i = \<lparr>id_q = i, file_q = sampleFile, status = pending, progress = 0, variations = []\<rparr>"

definition sampleBatch :: batch where
  "sampleBatch =
     \<lparr>queue = [sampleItem ''a'', sampleItem ''b'', sampleItem ''c''], isProcessing = False,
      numberOfVariations = 1, ffmpegLoaded = True,
      videoProcessor = fst (legacy_initialize True newVideoProcessor)\<rparr>"

text \<open>The four parameters whose directive is guarded by \<open>value > 0\<close>, enabled.\<close>

definition guardedEnabled :: VideoProcessingParameters where
  "guardedEnabled =
     initialParameters\<lparr>zoom := on 0.0 2.0, pixelShift := on 0.0 1.0,
       vignette := on 0.0 1.0, waveformShift := on 0.0 1.0\<rparr>"

section \<open>The vocabulary of the claims\<close>

text \<open>
  The runtime keeps its promise when every draw of \<^verbatim>\<open>Math.random()\<close> lies in
  \<open>[0, 1)\<close>.
\<close>

definition valid_draws :: "runtime \<Rightarrow> bool" where
  "valid_draws rt = (\<forall>k. 0 \<le> Math_random rt k \<and> Math_random rt k < 1)"

text \<open>
  The kind of a directive is read off the filter name it starts with; its rank is the
  place of that kind in the order the specification gives: 0 colour adjustment
  (\<^verbatim>\<open>eq=\<close>), 1 noise, 2 rotation, 3 horizontal flip, 4 zoom (\<^verbatim>\<open>scale=iw*\<close>),
  5 pixel-shift crop, 6 vignette, 7 waveform shift (\<^verbatim>\<open>geq=\<close>), 8 random-aspect
  resize (any other \<^verbatim>\<open>scale=\<close>), 9 speed retime (\<^verbatim>\<open>setpts=\<close>), 10 frame rate
  (\<^verbatim>\<open>fps=\<close>), and 11 for anything else.
\<close>

definition directive_rank :: "string \<Rightarrow> nat" where
  "directive_rank f =
     (if prefix ''eq='' f then 0
      else if prefix ''noise='' f then 1
      else if prefix ''rotate='' f then 2
      else if f = ''hflip'' then 3
      else if prefix ''scale=iw*'' f then 4
      else if prefix ''crop='' f then 5
      else if prefix ''vignette='' f then 6
      else if prefix ''geq='' f then 7
      else if prefix ''scale='' f then 8
      else if prefix ''setpts='' f then 9
      else if prefix ''fps='' f then 10
      else 11)"

text \<open>
  A directive list is ordered below \<open>n\<close> when the ranks of its directives increase
  strictly from left to right (so no kind occurs twice and the kinds stand in the given
  order) and stay below \<open>n\<close>. A kind has fired when a directive of its rank is in the
  list.
\<close>

definition ordered_below :: "nat \<Rightarrow> string list \<Rightarrow> bool" where
  "ordered_below n fs =
     (sorted_wrt (<) (map directive_rank fs) \<and> list_all (\<lambda>f. directive_rank f < n) fs)"

definition fired :: "nat \<Rightarrow> string list \<Rightarrow> bool" where
  "fired r fs = list_ex (\<lambda>f. directive_rank f = r) fs"

text \<open>A step emits at rank \<open>r\<close>: it appends one directive of that rank, or none.\<close>

definition emits :: "nat \<Rightarrow> bool \<Rightarrow> chain \<Rightarrow> chain \<Rightarrow> bool" where
  "emits r b c c' =
     (if b then \<exists>f. directive_rank f = r \<and> filters c' = filters c @ [f]
      else filters c' = filters c)"

text \<open>
  Two numbers have the same rendering at \<open>f\<close> decimals when they have the same sign and
  their magnitudes, scaled by \<open>10^f\<close>, round to the same integer.
\<close>

definition same_rendering :: "nat \<Rightarrow> real \<Rightarrow> real \<Rightarrow> bool" where
  "same_rendering f x y =
     ((x < 0) = (y < 0) \<and> \<lfloor>\<bar>x\<bar> * 10 ^ f + 1 / 2\<rfloor> = \<lfloor>\<bar>y\<bar> * 10 ^ f + 1 / 2\<rfloor>)"

text \<open>Reading a rendered number back: the value of the decimal digits of a string.\<close>

definition is_digit :: "char \<Rightarrow> bool" where
  "is_digit ch = (ch \<in> set ''0123456789'')"

definition digit_value :: "char \<Rightarrow> nat" where
  "digit_value ch = of_char ch - 48"

definition decimal_value :: "string \<Rightarrow> nat" where
  "decimal_value s = foldl (\<lambda>a ch. 10 * a + digit_value ch) 0 (filter is_digit s)"

text \<open>
  An updater keeps the queue's ids and statuses when it changes neither, as the progress
  updaters do. A processor is quiet when every listener registered on its engine makes
  only such updaters. \<open>mark i st\<close> is the effect on the status list of setting the
  status of the entries with id \<open>i\<close>.
\<close>

definition keeps :: "updater \<Rightarrow> bool" where
  "keeps u = (\<forall>q. map id_q (u q) = map id_q q \<and> map status (u q) = map status q)"

fun listener_keeps :: "updater listener \<Rightarrow> bool" where
  "listener_keeps (Plain f) = (\<forall>p. list_all keeps (f p))"
| "listener_keeps (Throttled n f) = (\<forall>p. list_all keeps (f p))"

definition quiet :: "updater VideoProcessor \<Rightarrow> bool" where
  "quiet vp = (case ffmpeg vp of None \<Rightarrow> True | Some ls \<Rightarrow> list_all listener_keeps ls)"

definition mark :: "string \<Rightarrow> status \<Rightarrow> string list \<Rightarrow> status list \<Rightarrow> status list" where
  "mark i st ids ss = map (\<lambda>(j, s). if j = i then st else s) (zip ids ss)"

section \<open>Properties of the sampler and of the quality mapping\<close>

lemma getRandomValue_lower:
  assumes "0 \<le> Math_random rt k" and "mn \<le> mx"
  shows "mn \<le> getRandomValue rt k mn mx"
proof -
  have "0 \<le> Math_random rt k * (mx - mn)"
    using assms by (intro mult_nonneg_nonneg) simp_all
  then show ?thesis by (simp add: getRandomValue_def)
qed

lemma getRandomValue_upper:
  assumes "Math_random rt k < 1" and "mn < mx"
  shows "getRandomValue rt k mn mx < mx"
proof -
  have "Math_random rt k * (mx - mn) < 1 * (mx - mn)"
    using assms by (intro mult_strict_right_mono) simp_all
  then show ?thesis by (simp add: getRandomValue_def)
qed

lemma getRandomValue_point: "getRandomValue rt k mn mn = mn"
  by (simp add: getRandomValue_def)

lemma crf_of_int: "crf (of_int q) = 51 - (51 * q) div 100"
proof -
  have "(of_int q :: real) * 0.51 = of_int (51 * q) / of_int 100"
    by simp
  then have "\<lfloor>(of_int q :: real) * 0.51\<rfloor> = (51 * q) div 100"
    by (simp only: floor_divide_of_int_eq)
  then show ?thesis by (simp only: crf_def)
qed

lemma crf_bounds:
  assumes "1 \<le> q" and "q \<le> 100"
  shows "0 \<le> crf q \<and> crf q \<le> 51"
proof -
  have "0 \<le> q * 0.51" using assms by simp
  then have lo: "0 \<le> \<lfloor>q * 0.51\<rfloor>" by simp
  have "q * 0.51 \<le> 51" using assms by simp
  then have hi: "\<lfloor>q * 0.51\<rfloor> \<le> 51" by (simp add: floor_le_iff)
  from lo hi show ?thesis by (simp add: crf_def)
qed








section \<open>The order of the directives\<close>


lemma digit_char_not_i: "d < 10 \<Longrightarrow> digit_char d \<noteq> CHR ''i''"
proof -
  assume "d < 10"
  then have "digit_char d \<in> set ''0123456789''"
    unfolding digit_char_def by (intro nth_mem) simp
  then show ?thesis by auto
qed

lemma digits_head: "\<exists>d ds. d < 10 \<and> digits n = digit_char d # ds"
proof (induction n rule: digits.induct)
  case (1 n)
  show ?case
  proof (cases "n < 10")
    case True
    then show ?thesis by (subst digits.simps) auto
  next
    case False
    with 1 obtain d ds where "d < 10" "digits (n div 10) = digit_char d # ds" by blast
    with False show ?thesis by (subst digits.simps) auto
  qed
qed

lemma rank_resize_digits: "directive_rank (''scale='' @ digits n @ s) = 8"
proof -
  obtain d ds where d: "d < 10" "digits n = digit_char d # ds"
    using digits_head by blast
  then show ?thesis
    using digit_char_not_i [OF d(1)] by (simp add: directive_rank_def)
qed


lemma ordered_below_emits:
  assumes "ordered_below r (filters c)" and "emits r b c c'"
  shows "ordered_below (Suc r) (filters c')"
proof (cases b)
  case True
  with assms(2) obtain f where f: "directive_rank f = r" "filters c' = filters c @ [f]"
    by (auto simp: emits_def)
  from assms(1) have "\<forall>g\<in>set (filters c). directive_rank g < r"
    by (simp add: ordered_below_def list_all_iff)
  with assms(1) f show ?thesis
    by (auto simp: ordered_below_def list_all_iff sorted_wrt_append less_Suc_eq)
next
  case False
  with assms show ?thesis
    by (auto simp: emits_def ordered_below_def list_all_iff less_Suc_eq)
qed

lemma fired_other:
  assumes "emits r b c c'" and "q \<noteq> r"
  shows "fired q (filters c') = fired q (filters c)"
  using assms by (cases b) (auto simp: emits_def fired_def list_ex_iff)

lemma not_fired_above:
  assumes "ordered_below r fs" and "r \<le> q"
  shows "\<not> fired q fs"
  using assms by (auto simp: ordered_below_def fired_def list_ex_iff list_all_iff)

lemma fired_here:
  assumes "ordered_below r (filters c)" and "emits r b c c'"
  shows "fired r (filters c') = b"
proof (cases b)
  case True
  with assms(2) show ?thesis by (auto simp: emits_def fired_def list_ex_iff)
next
  case False
  with assms(2) have "filters c' = filters c" by (simp add: emits_def)
  with not_fired_above [OF assms(1), of r] False show ?thesis by simp
qed

lemma saturation_step_filters: "filters (saturation_step rt params c) = filters c"
  by (simp add: saturation_step_def Let_def)
lemma contrast_step_filters: "filters (contrast_step rt params c) = filters c"
  by (simp add: contrast_step_def Let_def)
lemma brightness_step_filters: "filters (brightness_step rt params c) = filters c"
  by (simp add: brightness_step_def Let_def)
lemma gamma_step_filters: "filters (gamma_step rt params c) = filters c"
  by (simp add: gamma_step_def Let_def)

lemma saturation_step_eqParams:
  "(eqParams (saturation_step rt params c) = []) = (eqParams c = [] \<and> \<not> enabled (saturation params))"
  by (simp add: saturation_step_def Let_def)
lemma contrast_step_eqParams:
  "(eqParams (contrast_step rt params c) = []) = (eqParams c = [] \<and> \<not> enabled (contrast params))"
  by (simp add: contrast_step_def Let_def)
lemma brightness_step_eqParams:
  "(eqParams (brightness_step rt params c) = []) = (eqParams c = [] \<and> \<not> enabled (brightness params))"
  by (simp add: brightness_step_def Let_def)
lemma gamma_step_eqParams:
  "(eqParams (gamma_step rt params c) = []) = (eqParams c = [] \<and> \<not> enabled (gamma params))"
  by (simp add: gamma_step_def Let_def)

lemma eq_step_emits: "emits 0 (eqParams c \<noteq> []) c (eq_step rt params c)"
  by (simp add: emits_def eq_step_def directive_rank_def)

lemma noise_step_emits: "emits 1 (enabled (noise params)) c (noise_step rt params c)"
  by (simp add: emits_def noise_step_def Let_def directive_rank_def)

lemma rotation_step_emits: "emits 2 (enabled (rotation params)) c (rotation_step rt params c)"
  by (simp add: emits_def rotation_step_def Let_def directive_rank_def)

lemma flip_step_emits: "emits 3 (enabled (flipHorizontally params)) c (flip_step rt params c)"
  by (simp add: emits_def flip_step_def directive_rank_def)

lemma zoom_step_emits:
  "emits 4 (enabled (zoom params) \<and>
            0 < getRandomValue rt (randomCalls c) (min_v (zoom params)) (max_v (zoom params)))
     c (zoom_step rt params c)"
  by (simp add: emits_def zoom_step_def Let_def directive_rank_def)

lemma pixelShift_step_emits:
  "emits 5 (enabled (pixelShift params) \<and>
            0 < getRandomValue rt (randomCalls c) (min_v (pixelShift params)) (max_v (pixelShift params)))
     c (pixelShift_step rt params c)"
  by (simp add: emits_def pixelShift_step_def Let_def directive_rank_def)

lemma vignette_step_emits:
  "emits 6 (enabled (vignette params) \<and>
            0 < getRandomValue rt (randomCalls c) (min_v (vignette params)) (max_v (vignette params)))
     c (vignette_step rt params c)"
  by (simp add: emits_def vignette_step_def Let_def directive_rank_def)

lemma waveformShift_step_emits:
  "emits 7 (enabled (waveformShift params) \<and>
            0 < getRandomValue rt (randomCalls c) (min_v (waveformShift params)) (max_v (waveformShift params)))
     c (waveformShift_step rt params c)"
  by (simp add: emits_def waveformShift_step_def Let_def directive_rank_def)

lemma Number_toString_digits:
  assumes "0 \<le> w" and "w < 10 ^ 21"
  shows "Number_toString rt w = digits (nat w)"
  using assms by (simp add: Number_toString_def)

lemma rank_resize:
  assumes "0 \<le> w" and "w < 10 ^ 21"
  shows "directive_rank (''scale='' @ Number_toString rt w @ s) = 8"
  unfolding Number_toString_digits [OF assms] by (rule rank_resize_digits)

lemma randomPixelSize_step_emits:
  assumes "valid_draws rt"
  shows "emits 8 (enabled (randomPixelSize params)) c (randomPixelSize_step rt params c)"
proof (cases "enabled (randomPixelSize params)")
  case False
  then show ?thesis by (simp add: emits_def randomPixelSize_step_def)
next
  case True
  define r where "r = Math_random rt (randomCalls c)"
  define bh where "bh = 720 + \<lfloor>r * 360\<rfloor>"
  define w where "w = \<lfloor>real_of_int bh * 9 / 16 / 2\<rfloor> * 2"
  define h where "h = \<lfloor>real_of_int bh / 2\<rfloor> * 2"
  from assms have "0 \<le> r" and "r < 1" by (simp_all add: valid_draws_def r_def)
  then have "0 \<le> r * 360" and "r * 360 < 360" by simp_all
  then have "0 \<le> \<lfloor>r * 360\<rfloor>" and "\<lfloor>r * 360\<rfloor> < 360" by (simp_all add: floor_less_iff)
  then have bh: "720 \<le> bh" "bh < 1080" by (simp_all add: bh_def)
  then have "0 \<le> real_of_int bh * 9 / 16 / 2" and "real_of_int bh * 9 / 16 / 2 < 1080"
    by simp_all
  then have "0 \<le> \<lfloor>real_of_int bh * 9 / 16 / 2\<rfloor>" and "\<lfloor>real_of_int bh * 9 / 16 / 2\<rfloor> < 1080"
    by (simp_all add: floor_less_iff)
  then have w: "0 \<le> w" "w < 10 ^ 21" by (simp_all add: w_def)
  have eq: "filters (randomPixelSize_step rt params c) =
      filters c @ [''scale='' @ Number_toString rt w @ '':'' @ Number_toString rt h]"
    using True by (simp add: randomPixelSize_step_def Let_def w_def h_def bh_def r_def)
  have "\<exists>f. directive_rank f = 8 \<and> filters (randomPixelSize_step rt params c) = filters c @ [f]"
    using eq rank_resize [OF w] by blast
  then show ?thesis using True by (simp only: emits_def if_True)
qed

lemma speed_step_emits: "emits 9 (enabled (speed params)) c (speed_step rt params c)"
  by (simp add: emits_def speed_step_def Let_def directive_rank_def)

lemma framerate_step_emits: "emits 10 (enabled (framerate params)) c (framerate_step rt params c)"
  by (simp add: emits_def framerate_step_def Let_def directive_rank_def)


lemma ordered_below_Nil: "ordered_below 0 []"
  by (simp add: ordered_below_def)

lemma buildFilterChain_structure:
  assumes "valid_draws rt"
  shows "\<exists>k4 k5 k6 k7.
    ordered_below 11 (filters (buildFilterChain rt k params)) \<and>
    fired 0 (filters (buildFilterChain rt k params)) =
      (enabled (saturation params) \<or> enabled (contrast params) \<or>
       enabled (brightness params) \<or> enabled (gamma params)) \<and>
    fired 1 (filters (buildFilterChain rt k params)) = enabled (noise params) \<and>
    fired 2 (filters (buildFilterChain rt k params)) = enabled (rotation params) \<and>
    fired 3 (filters (buildFilterChain rt k params)) = enabled (flipHorizontally params) \<and>
    fired 4 (filters (buildFilterChain rt k params)) =
      (enabled (zoom params) \<and>
       0 < getRandomValue rt k4 (min_v (zoom params)) (max_v (zoom params))) \<and>
    fired 5 (filters (buildFilterChain rt k params)) =
      (enabled (pixelShift params) \<and>
       0 < getRandomValue rt k5 (min_v (pixelShift params)) (max_v (pixelShift params))) \<and>
    fired 6 (filters (buildFilterChain rt k params)) =
      (enabled (vignette params) \<and>
       0 < getRandomValue rt k6 (min_v (vignette params)) (max_v (vignette params))) \<and>
    fired 7 (filters (buildFilterChain rt k params)) =
      (enabled (waveformShift params) \<and>
       0 < getRandomValue rt k7 (min_v (waveformShift params)) (max_v (waveformShift params))) \<and>
    fired 8 (filters (buildFilterChain rt k params)) = enabled (randomPixelSize params) \<and>
    fired 9 (filters (buildFilterChain rt k params)) = enabled (speed params) \<and>
    fired 10 (filters (buildFilterChain rt k params)) = enabled (framerate params)"
proof -
  define c0 where "c0 = \<lparr>eqParams = [], filters = [], appliedFilters = [], randomCalls = k\<rparr>"
  define c1 where "c1 = saturation_step rt params c0"
  define c2 where "c2 = contrast_step rt params c1"
  define c3 where "c3 = brightness_step rt params c2"
  define c4 where "c4 = gamma_step rt params c3"
  define c5 where "c5 = eq_step rt params c4"
  define c6 where "c6 = noise_step rt params c5"
  define c7 where "c7 = rotation_step rt params c6"
  define c8 where "c8 = flip_step rt params c7"
  define c9 where "c9 = zoom_step rt params c8"
  define c10 where "c10 = pixelShift_step rt params c9"
  define c11 where "c11 = vignette_step rt params c10"
  define c12 where "c12 = waveformShift_step rt params c11"
  define c13 where "c13 = randomPixelSize_step rt params c12"
  define c14 where "c14 = speed_step rt params c13"
  define c15 where "c15 = framerate_step rt params c14"
  have final: "buildFilterChain rt k params = c15"
    unfolding buildFilterChain_def c15_def c14_def c13_def c12_def c11_def c10_def c9_def c8_def
      c7_def c6_def c5_def c4_def c3_def c2_def c1_def c0_def
    by simp
  have "filters c4 = []"
    by (simp add: c4_def c3_def c2_def c1_def c0_def gamma_step_filters brightness_step_filters
        contrast_step_filters saturation_step_filters)
  then have o4: "ordered_below 0 (filters c4)"
    by (simp add: ordered_below_Nil)
  have colours: "(eqParams c4 \<noteq> []) =
      (enabled (saturation params) \<or> enabled (contrast params) \<or>
       enabled (brightness params) \<or> enabled (gamma params))"
    by (simp add: c4_def c3_def c2_def c1_def c0_def gamma_step_eqParams brightness_step_eqParams
        contrast_step_eqParams saturation_step_eqParams)
  have e5: "emits 0 (eqParams c4 \<noteq> []) c4 c5"
    unfolding c5_def by (rule eq_step_emits)
  have e6: "emits 1 (enabled (noise params)) c5 c6"
    unfolding c6_def by (rule noise_step_emits)
  have e7: "emits 2 (enabled (rotation params)) c6 c7"
    unfolding c7_def by (rule rotation_step_emits)
  have e8: "emits 3 (enabled (flipHorizontally params)) c7 c8"
    unfolding c8_def by (rule flip_step_emits)
  have e9: "emits 4 (enabled (zoom params) \<and> 0 < getRandomValue rt (randomCalls c8) (min_v (zoom params)) (max_v (zoom params)))
      c8 c9"
    unfolding c9_def by (rule zoom_step_emits)
  have e10: "emits 5 (enabled (pixelShift params) \<and> 0 < getRandomValue rt (randomCalls c9) (min_v (pixelShift params)) (max_v (pixelShift params)))
      c9 c10"
    unfolding c10_def by (rule pixelShift_step_emits)
  have e11: "emits 6 (enabled (vignette params) \<and> 0 < getRandomValue rt (randomCalls c10) (min_v (vignette params)) (max_v (vignette params)))
      c10 c11"
    unfolding c11_def by (rule vignette_step_emits)
  have e12: "emits 7 (enabled (waveformShift params) \<and> 0 < getRandomValue rt (randomCalls c11) (min_v (waveformShift params)) (max_v (waveformShift params)))
      c11 c12"
    unfolding c12_def by (rule waveformShift_step_emits)
  have e13: "emits 8 (enabled (randomPixelSize params)) c12 c13"
    unfolding c13_def by (rule randomPixelSize_step_emits [OF assms])
  have e14: "emits 9 (enabled (speed params)) c13 c14"
    unfolding c14_def by (rule speed_step_emits)
  have e15: "emits 10 (enabled (framerate params)) c14 c15"
    unfolding c15_def by (rule framerate_step_emits)
  have o5: "ordered_below 1 (filters c5)"
    using ordered_below_emits [OF o4 e5] by simp
  have o6: "ordered_below 2 (filters c6)"
    using ordered_below_emits [OF o5 e6] by (simp add: numeral_2_eq_2)
  have o7: "ordered_below 3 (filters c7)"
    using ordered_below_emits [OF o6 e7] by (simp add: eval_nat_numeral)
  have o8: "ordered_below 4 (filters c8)"
    using ordered_below_emits [OF o7 e8] by (simp add: eval_nat_numeral)
  have o9: "ordered_below 5 (filters c9)"
    using ordered_below_emits [OF o8 e9] by (simp add: eval_nat_numeral)
  have o10: "ordered_below 6 (filters c10)"
    using ordered_below_emits [OF o9 e10] by (simp add: eval_nat_numeral)
  have o11: "ordered_below 7 (filters c11)"
    using ordered_below_emits [OF o10 e11] by (simp add: eval_nat_numeral)
  have o12: "ordered_below 8 (filters c12)"
    using ordered_below_emits [OF o11 e12] by (simp add: eval_nat_numeral)
  have o13: "ordered_below 9 (filters c13)"
    using ordered_below_emits [OF o12 e13] by (simp add: eval_nat_numeral)
  have o14: "ordered_below 10 (filters c14)"
    using ordered_below_emits [OF o13 e14] by (simp add: eval_nat_numeral)
  have o15: "ordered_below 11 (filters c15)"
    using ordered_below_emits [OF o14 e15] by (simp add: eval_nat_numeral)
  note later = fired_other [OF e6] fired_other [OF e7] fired_other [OF e8] fired_other [OF e9]
    fired_other [OF e10] fired_other [OF e11] fired_other [OF e12] fired_other [OF e13]
    fired_other [OF e14] fired_other [OF e15]
  have f0: "fired 0 (filters c15) = (eqParams c4 \<noteq> [])"
    using fired_here [OF o4 e5] by (simp add: later)
  have f1: "fired 1 (filters c15) = enabled (noise params)"
    using fired_here [OF o5 e6] by (simp add: later)
  have f2: "fired 2 (filters c15) = enabled (rotation params)"
    using fired_here [OF o6 e7] by (simp add: later)
  have f3: "fired 3 (filters c15) = enabled (flipHorizontally params)"
    using fired_here [OF o7 e8] by (simp add: later)
  have f4: "fired 4 (filters c15) =
      (enabled (zoom params) \<and> 0 < getRandomValue rt (randomCalls c8) (min_v (zoom params)) (max_v (zoom params)))"
    using fired_here [OF o8 e9] by (simp add: later)
  have f5: "fired 5 (filters c15) =
      (enabled (pixelShift params) \<and> 0 < getRandomValue rt (randomCalls c9) (min_v (pixelShift params)) (max_v (pixelShift params)))"
    using fired_here [OF o9 e10] by (simp add: later)
  have f6: "fired 6 (filters c15) =
      (enabled (vignette params) \<and> 0 < getRandomValue rt (randomCalls c10) (min_v (vignette params)) (max_v (vignette params)))"
    using fired_here [OF o10 e11] by (simp add: later)
  have f7: "fired 7 (filters c15) =
      (enabled (waveformShift params) \<and> 0 < getRandomValue rt (randomCalls c11) (min_v (waveformShift params)) (max_v (waveformShift params)))"
    using fired_here [OF o11 e12] by (simp add: later)
  have f8: "fired 8 (filters c15) = enabled (randomPixelSize params)"
    using fired_here [OF o12 e13] by (simp add: later)
  have f9: "fired 9 (filters c15) = enabled (speed params)"
    using fired_here [OF o13 e14] by (simp add: later)
  have f10: "fired 10 (filters c15) = enabled (framerate params)"
    using fired_here [OF o14 e15] by (simp add: later)
  show ?thesis
    unfolding final
    unfolding f0 colours f1 f2 f3 f4 f5 f6 f7 f8 f9 f10 using o15 by blast
qed


section \<open>The precision of the rendered values\<close>


lemma below_ten: "d < 10 \<Longrightarrow> d \<in> {0, 1, 2, 3, 4, 5, 6, 7, 8, 9 :: nat}"
  by auto

lemma digit_char_is_digit: "d < 10 \<Longrightarrow> is_digit (digit_char d)"
  unfolding is_digit_def digit_char_def by (intro nth_mem) simp

lemma digit_value_digit_char: "d < 10 \<Longrightarrow> digit_value (digit_char d) = d"
  using below_ten [of d] by (auto simp: digit_value_def digit_char_def)

lemma digits_all_digit: "list_all is_digit (digits n)"
proof (induction n rule: digits.induct)
  case (1 n)
  show ?case
  proof (cases "n < 10")
    case True
    then show ?thesis by (subst digits.simps) (simp add: digit_char_is_digit)
  next
    case False
    with 1 have "list_all is_digit (digits (n div 10))" by simp
    with False show ?thesis by (subst digits.simps) (simp add: digit_char_is_digit)
  qed
qed

lemma filter_digits: "filter is_digit (digits n) = digits n"
  using digits_all_digit [of n] by (simp add: list_all_iff)

lemma foldl_digits: "foldl (\<lambda>a ch. 10 * a + digit_value ch) 0 (digits n) = n"
proof (induction n rule: digits.induct)
  case (1 n)
  show ?case
  proof (cases "n < 10")
    case True
    then show ?thesis by (subst digits.simps) (simp add: digit_value_digit_char)
  next
    case False
    with 1 have "foldl (\<lambda>a ch. 10 * a + digit_value ch) 0 (digits (n div 10)) = n div 10"
      by simp
    with False show ?thesis by (subst digits.simps) (simp add: digit_value_digit_char)
  qed
qed

lemma foldl_zeros:
  "foldl (\<lambda>a ch. 10 * a + digit_value ch) 0 (replicate k (CHR ''0'') @ s) =
   foldl (\<lambda>a ch. 10 * a + digit_value ch) 0 s"
  by (induction k) (simp_all add: digit_value_def)

lemma is_digit_simps: "is_digit (CHR ''0'')" "\<not> is_digit (CHR ''.'')" "\<not> is_digit (CHR ''-'')"
  by (simp_all add: is_digit_def)

text \<open>The body of a rendering: the padded digits with the point put in.\<close>

lemma toFixed_nonneg:
  assumes "0 \<le> x" and "x < 10 ^ 21" and "0 < f"
  shows "\<exists>m. toFixed rt x f = take (length m - f) m @ ''.'' @ drop (length m - f) m \<and>
             list_all is_digit m \<and>
             foldl (\<lambda>a ch. 10 * a + digit_value ch) 0 m = nat \<lfloor>x * 10 ^ f + 1 / 2\<rfloor>"
proof -
  define n where "n = nat \<lfloor>x * 10 ^ f + 1 / 2\<rfloor>"
  define m where "m = (if length (digits n) \<le> f
      then replicate (f + 1 - length (digits n)) (CHR ''0'') @ digits n else digits n)"
  have "toFixed rt x f = take (length m - f) m @ ''.'' @ drop (length m - f) m"
    using assms by (simp add: toFixed_def Let_def m_def n_def)
  moreover have "list_all is_digit m"
    using digits_all_digit [of n] by (simp add: m_def is_digit_simps list_all_iff)
  moreover have "foldl (\<lambda>a ch. 10 * a + digit_value ch) 0 m = n"
    by (simp add: m_def foldl_zeros foldl_digits del: foldl_append)
  ultimately show ?thesis unfolding n_def by blast
qed

lemma toFixed_nonneg_decode:
  assumes "0 \<le> x" and "x < 10 ^ 21" and "0 < f"
  shows "decimal_value (toFixed rt x f) = nat \<lfloor>x * 10 ^ f + 1 / 2\<rfloor>"
    and "hd (toFixed rt x f) \<noteq> CHR ''-''"
proof -
  obtain m where m: "toFixed rt x f = take (length m - f) m @ ''.'' @ drop (length m - f) m"
    "list_all is_digit m"
    "foldl (\<lambda>a ch. 10 * a + digit_value ch) 0 m = nat \<lfloor>x * 10 ^ f + 1 / 2\<rfloor>"
    using toFixed_nonneg [OF assms] by blast
  have a: "filter is_digit (take (length m - f) m) = take (length m - f) m"
    using m(2) by (intro filter_True) (auto simp: list_all_iff dest: in_set_takeD)
  have b: "filter is_digit (drop (length m - f) m) = drop (length m - f) m"
    using m(2) by (intro filter_True) (auto simp: list_all_iff dest: in_set_dropD)
  have "filter is_digit (toFixed rt x f) = take (length m - f) m @ drop (length m - f) m"
    by (simp add: m(1) a b is_digit_simps)
  then show "decimal_value (toFixed rt x f) = nat \<lfloor>x * 10 ^ f + 1 / 2\<rfloor>"
    by (simp add: decimal_value_def m(3))
  have "set (toFixed rt x f) \<subseteq> set m \<union> {CHR ''.''}"
    by (auto simp: m(1) dest: in_set_takeD in_set_dropD)
  moreover have "CHR ''-'' \<notin> set m"
    using m(2) is_digit_simps(3) by (auto simp: list_all_iff)
  ultimately have "CHR ''-'' \<notin> set (toFixed rt x f)"
    by auto
  moreover have "toFixed rt x f \<noteq> []" by (simp add: m(1))
  ultimately show "hd (toFixed rt x f) \<noteq> CHR ''-''"
    using hd_in_set by metis
qed

lemma toFixed_negative:
  assumes "x < 0"
  shows "toFixed rt x f = ''-'' @ toFixed rt (- x) f"
  using assms by (simp add: toFixed_def)

lemma toFixed_decode:
  assumes "\<bar>x\<bar> < 10 ^ 21" and "0 < f"
  shows "decimal_value (toFixed rt x f) = nat \<lfloor>\<bar>x\<bar> * 10 ^ f + 1 / 2\<rfloor>"
    and "(hd (toFixed rt x f) = CHR ''-'') = (x < 0)"
proof -
  show "decimal_value (toFixed rt x f) = nat \<lfloor>\<bar>x\<bar> * 10 ^ f + 1 / 2\<rfloor>"
  proof (cases "x < 0")
    case True
    then have "decimal_value (toFixed rt x f) = decimal_value (toFixed rt (- x) f)"
      by (simp add: toFixed_negative decimal_value_def is_digit_simps)
    also have "\<dots> = nat \<lfloor>(- x) * 10 ^ f + 1 / 2\<rfloor>"
      using True assms by (intro toFixed_nonneg_decode) simp_all
    finally show ?thesis using True by simp
  next
    case False
    then show ?thesis using assms toFixed_nonneg_decode(1) [of x f rt] by simp
  qed
  show "(hd (toFixed rt x f) = CHR ''-'') = (x < 0)"
  proof (cases "x < 0")
    case True
    then show ?thesis by (simp add: toFixed_negative)
  next
    case False
    then show ?thesis using assms toFixed_nonneg_decode(2) [of x f rt] by simp
  qed
qed

lemma toFixed_eq_iff:
  assumes "\<bar>x\<bar> < 10 ^ 21" and "\<bar>y\<bar> < 10 ^ 21" and "0 < f"
  shows "(toFixed rt x f = toFixed rt y f) =
         ((x < 0) = (y < 0) \<and> \<lfloor>\<bar>x\<bar> * 10 ^ f + 1 / 2\<rfloor> = \<lfloor>\<bar>y\<bar> * 10 ^ f + 1 / 2\<rfloor>)"
proof
  assume eq: "toFixed rt x f = toFixed rt y f"
  have "nat \<lfloor>\<bar>x\<bar> * 10 ^ f + 1 / 2\<rfloor> = nat \<lfloor>\<bar>y\<bar> * 10 ^ f + 1 / 2\<rfloor>"
    using toFixed_decode(1) [OF assms(1,3), of rt] toFixed_decode(1) [OF assms(2,3), of rt] eq
    by simp
  moreover have "0 \<le> \<lfloor>\<bar>x\<bar> * 10 ^ f + 1 / 2\<rfloor>" and "0 \<le> \<lfloor>\<bar>y\<bar> * 10 ^ f + 1 / 2\<rfloor>"
    by simp_all
  ultimately have "\<lfloor>\<bar>x\<bar> * 10 ^ f + 1 / 2\<rfloor> = \<lfloor>\<bar>y\<bar> * 10 ^ f + 1 / 2\<rfloor>"
    by linarith
  moreover have "(x < 0) = (y < 0)"
    using toFixed_decode(2) [OF assms(1,3), of rt] toFixed_decode(2) [OF assms(2,3), of rt] eq
    by simp
  ultimately show "(x < 0) = (y < 0) \<and> \<lfloor>\<bar>x\<bar> * 10 ^ f + 1 / 2\<rfloor> = \<lfloor>\<bar>y\<bar> * 10 ^ f + 1 / 2\<rfloor>"
    by simp
next
  assume "(x < 0) = (y < 0) \<and> \<lfloor>\<bar>x\<bar> * 10 ^ f + 1 / 2\<rfloor> = \<lfloor>\<bar>y\<bar> * 10 ^ f + 1 / 2\<rfloor>"
  then show "toFixed rt x f = toFixed rt y f"
    using assms by (simp add: toFixed_def)
qed


section \<open>Builders on single parameters\<close>


lemmas enhanced_steps = saturation_step_def contrast_step_def brightness_step_def gamma_step_def
  eq_step_def noise_step_def rotation_step_def flip_step_def zoom_step_def pixelShift_step_def
  vignette_step_def waveformShift_step_def randomPixelSize_step_def speed_step_def
  framerate_step_def

lemmas legacy_steps = legacy_saturation_def legacy_contrast_def legacy_brightness_def
  legacy_gamma_def legacy_noise_def legacy_rotation_def legacy_flip_def legacy_zoom_def
  legacy_pixelShift_def legacy_vignette_def

lemma getRandomValue_const: "getRandomValue rt k v v = v"
  by (simp add: getRandomValue_def)

lemma only_saturation:
  "filters (buildFilterChain rt k (initialParameters\<lparr>saturation := on v v\<rparr>)) =
     [''eq=saturation='' @ toFixed rt v 3]"
  by (simp add: buildFilterChain_def enhanced_steps initialParameters_def on_def off_def
      getRandomValue_const)

lemma only_rotation:
  "filters (buildFilterChain rt k (initialParameters\<lparr>rotation := on v v\<rparr>)) =
     [''rotate='' @ toFixed rt (v * Math_PI / 180) 4]"
  "appliedFilters (buildFilterChain rt k (initialParameters\<lparr>rotation := on v v\<rparr>)) =
     [''rotate='' @ toFixed rt v 2 @ [CHR 0xB0]]"
  by (simp_all add: buildFilterChain_def enhanced_steps initialParameters_def on_def off_def
      getRandomValue_const Let_def)

lemma only_vignette:
  "0 < v \<Longrightarrow> filters (buildFilterChain rt k (initialParameters\<lparr>vignette := on v v\<rparr>)) =
     [''vignette=angle=PI/4:eval=frame'']"
  "0 < v \<Longrightarrow> appliedFilters (buildFilterChain rt k (initialParameters\<lparr>vignette := on v v\<rparr>)) =
     [''vignette='' @ toFixed rt v 3]"
  by (simp_all add: buildFilterChain_def enhanced_steps initialParameters_def on_def off_def
      getRandomValue_const Let_def)

lemma digits_100: "digits 100 = ''100''"
  by code_simp

lemma toFixed_one: "toFixed rt 1 2 = ''1.00''"
  by (simp add: toFixed_def digits_100)

lemma legacy_zero_zoom:
  "buildFilterString rt k (initialParameters\<lparr>zoom := on 0 0\<rparr>) = (''scale=iw*1.00:ih*1.00'', Suc k)"
  by (simp add: buildFilterString_def legacy_filters_def legacy_steps initialParameters_def
      on_def off_def getRandomValue_const toFixed_one)



section \<open>The claims about the builders\<close>

lemma valid_draws_half: "valid_draws halfRuntime"
  by (simp add: valid_draws_def halfRuntime_def)

text \<open>
  The builder of the enhanced processor emits no zoom directive for a zoom range
  \<open>[0, 0]\<close>, whatever else is enabled.
\<close>

lemma enhanced_zero_zoom_no_scale:
  assumes "valid_draws rt" and "min_v (zoom params) = 0" and "max_v (zoom params) = 0"
  shows "\<not> fired 4 (filters (buildFilterChain rt k params))"
  using buildFilterChain_structure [OF assms(1), of k params] assms(2,3)
  by (auto simp: getRandomValue_const)

text \<open>
  The pixel-shift block of the enhanced builder tests the sampled value, not the pixel
  count: a value in \<open>(0, 0.2)\<close> passes the guard and gives a crop by 0 pixels.
\<close>

lemma enhanced_small_pixelShift_emits_crop:
  "filters (buildFilterChain (fixedDraw 0.1) 0 (initialParameters\<lparr>pixelShift := on 0.0 1.0\<rparr>)) =
     [''crop=iw-0:ih-0:0:0'']"
  by code_simp

text \<open>
  C3. With zoom enabled on the range \<open>[0, 0]\<close> and nothing else enabled, the legacy
  \<^verbatim>\<open>buildFilterString\<close> returns the zoom directive \<^verbatim>\<open>scale=iw*1.00:ih*1.00\<close>, for
  every draw: its zoom block has no guard, where the block of the enhanced builder tests
  \<^verbatim>\<open>zoomValue > 0\<close>.
\<close>

theorem C3_legacy_zero_zoom_emits_scale:
  "buildFilterString rt k (initialParameters\<lparr>zoom := on 0 0\<rparr>) =
     (''scale=iw*1.00:ih*1.00'', Suc k) \<and>
   fired 4 (fst (legacy_filters rt k (initialParameters\<lparr>zoom := on 0 0\<rparr>)))"
  by (simp add: buildFilterString_def legacy_filters_def legacy_steps initialParameters_def
      on_def off_def getRandomValue_const toFixed_one fired_def directive_rank_def)


lemma guardedEnabled_filters:
  "filters (buildFilterChain halfRuntime 0 guardedEnabled) =
     [''scale=iw*2.000:ih*2.000'', ''crop=iw-2:ih-2:1:1'', ''vignette=angle=PI/4:eval=frame'',
      ''geq=r='' @ [CHR 0x27] @ ''r(X+1,Y)'' @ [CHR 0x27] @ '':g='' @ [CHR 0x27] @
      ''g(X,Y+1)'' @ [CHR 0x27] @ '':b='' @ [CHR 0x27] @ ''b(X,Y)'' @ [CHR 0x27]]"
  by code_simp



section \<open>The claim about the precision of directives\<close>

lemma only_contrast:
  "filters (buildFilterChain rt k (initialParameters\<lparr>contrast := on v v\<rparr>)) =
     [''eq=contrast='' @ toFixed rt v 3]"
  by (simp add: buildFilterChain_def enhanced_steps initialParameters_def on_def off_def
      getRandomValue_const)

lemma only_brightness:
  "filters (buildFilterChain rt k (initialParameters\<lparr>brightness := on v v\<rparr>)) =
     [''eq=brightness='' @ toFixed rt v 3]"
  by (simp add: buildFilterChain_def enhanced_steps initialParameters_def on_def off_def
      getRandomValue_const)

lemma only_gamma:
  "filters (buildFilterChain rt k (initialParameters\<lparr>gamma := on v v\<rparr>)) =
     [''eq=gamma='' @ toFixed rt v 3]"
  by (simp add: buildFilterChain_def enhanced_steps initialParameters_def on_def off_def
      getRandomValue_const)

lemma toFixed_same_rendering:
  assumes "\<bar>x\<bar> < 10 ^ 21" and "\<bar>y\<bar> < 10 ^ 21" and "0 < f"
  shows "(toFixed rt x f = toFixed rt y f) = same_rendering f x y"
  unfolding same_rendering_def by (rule toFixed_eq_iff [OF assms])

lemma radians_bound:
  assumes "\<bar>v\<bar> < 10 ^ 21"
  shows "\<bar>v * Math_PI / 180\<bar> < 10 ^ 21"
proof -
  have "\<bar>v * Math_PI / 180\<bar> = \<bar>v\<bar> * (Math_PI / 180)"
    by (simp add: Math_PI_def abs_mult)
  also have "\<dots> \<le> \<bar>v\<bar> * 1"
    by (intro mult_left_mono) (simp_all add: Math_PI_def)
  finally show ?thesis using assms by simp
qed




section \<open>The claims about the enhanced processor\<close>

lemma processVideo_fallback:
  assumes "\<not> isLoaded s"
  shows "processVideo rt eng s inputFile params onProgress =
    (s, [], Inr (if supportsWebCodecs s then processWithWebCodecs inputFile params onProgress
                 else processWithCanvas inputFile params onProgress))"
  using assms by (simp add: processVideo_def)

lemma processVideo_engine_state:
  "isLoaded (fst (processVideo rt eng s inputFile params onProgress)) = isLoaded s \<and>
   supportsWebCodecs (fst (processVideo rt eng s inputFile params onProgress)) = supportsWebCodecs s"
  by (simp add: processVideo_def Let_def split: option.splits engine_run.splits prod.splits)

lemma loop_done:
  assumes "\<not> i < n"
  shows "generateVariations_loop rt eng inputFile params n onProgress i s results =
         (s, [], Inr results)"
  using assms by (subst generateVariations_loop.simps) simp

lemma loop_fail:
  assumes "i < n"
    and "processVideo rt eng s inputFile params
           (Some (\<lambda>progress. case onProgress of None \<Rightarrow> [] | Some cb \<Rightarrow> [cb (i + 1) progress])) =
         (s', calls, Inl e)"
  shows "generateVariations_loop rt eng inputFile params n onProgress i s results =
         (s', calls, Inl e)"
  using assms by (subst generateVariations_loop.simps) simp

lemma loop_step:
  assumes "i < n"
    and "processVideo rt eng s inputFile params
           (Some (\<lambda>progress. case onProgress of None \<Rightarrow> [] | Some cb \<Rightarrow> [cb (i + 1) progress])) =
         (s', calls, Inr result)"
    and "generateVariations_loop rt eng inputFile params n onProgress (i + 1) s'
           (results @ [result]) = (s'', calls', r)"
  shows "generateVariations_loop rt eng inputFile params n onProgress i s results =
         (s'', calls @ calls', r)"
  using assms by (subst generateVariations_loop.simps) simp

lemma generateVariations_loop_engine_state:
  assumes "generateVariations_loop rt eng inputFile params n onProgress i s results = (t, calls, r)"
  shows "isLoaded t = isLoaded s \<and> supportsWebCodecs t = supportsWebCodecs s"
  using assms
proof (induction rt eng inputFile params n onProgress i s results arbitrary: t calls r
    rule: generateVariations_loop.induct)
  case (1 rt eng inputFile params n onProgress i s results)
  let ?cb = "Some (\<lambda>progress. case onProgress of None \<Rightarrow> [] | Some cb \<Rightarrow> [cb (i + 1) progress])"
  show ?case
  proof (cases "i < n")
    case False
    with 1(2) show ?thesis by (simp add: loop_done)
  next
    case True
    obtain s' calls1 r1 where pv: "processVideo rt eng s inputFile params ?cb = (s', calls1, r1)"
      by (cases "processVideo rt eng s inputFile params ?cb") auto
    have s': "isLoaded s' = isLoaded s \<and> supportsWebCodecs s' = supportsWebCodecs s"
      using processVideo_engine_state [of rt eng s inputFile params ?cb] pv by simp
    show ?thesis
    proof (cases r1)
      case (Inl e)
      with True pv 1(2) s' show ?thesis by (simp add: loop_fail)
    next
      case (Inr result)
      obtain s'' calls2 r2 where rec: "generateVariations_loop rt eng inputFile params n onProgress
          (i + 1) s' (results @ [result]) = (s'', calls2, r2)"
        by (cases "generateVariations_loop rt eng inputFile params n onProgress
          (i + 1) s' (results @ [result])") auto
      from 1(1) [OF True pv [symmetric] refl Inr rec]
      have "isLoaded s'' = isLoaded s' \<and> supportsWebCodecs s'' = supportsWebCodecs s'" .
      moreover from loop_step [OF True pv [unfolded Inr] rec] 1(2) have "t = s''" by simp
      ultimately show ?thesis using s' by simp
    qed
  qed
qed

lemma generateVariations_loop_count:
  assumes "generateVariations_loop rt eng inputFile params n onProgress i s results =
           (t, calls, Inr rs)"
  shows "length rs = length results + (n - i)"
  using assms
proof (induction rt eng inputFile params n onProgress i s results arbitrary: t calls rs
    rule: generateVariations_loop.induct)
  case (1 rt eng inputFile params n onProgress i s results)
  let ?cb = "Some (\<lambda>progress. case onProgress of None \<Rightarrow> [] | Some cb \<Rightarrow> [cb (i + 1) progress])"
  show ?case
  proof (cases "i < n")
    case False
    with 1(2) show ?thesis by (simp add: loop_done)
  next
    case True
    obtain s' calls1 r1 where pv: "processVideo rt eng s inputFile params ?cb = (s', calls1, r1)"
      by (cases "processVideo rt eng s inputFile params ?cb") auto
    show ?thesis
    proof (cases r1)
      case (Inl e)
      with True pv 1(2) show ?thesis by (simp add: loop_fail)
    next
      case (Inr result)
      obtain s'' calls2 r2 where rec: "generateVariations_loop rt eng inputFile params n onProgress
          (i + 1) s' (results @ [result]) = (s'', calls2, r2)"
        by (cases "generateVariations_loop rt eng inputFile params n onProgress
          (i + 1) s' (results @ [result])") auto
      from loop_step [OF True pv [unfolded Inr] rec] 1(2) have r2: "r2 = Inr rs" by simp
      from 1(1) [OF True pv [symmetric] refl Inr rec [unfolded r2]]
      have "length rs = length (results @ [result]) + (n - (i + 1))" .
      with True show ?thesis by simp
    qed
  qed
qed

lemma generateVariations_count:
  assumes "generateVariations rt eng s inputFile params n onProgress = (t, calls, Inr rs)"
  shows "length rs = n"
  using generateVariations_loop_count [OF assms [unfolded generateVariations_def]] by simp

text \<open>
  C8. With the full engine not loaded and no platform codec, a request for one variation
  resolves with exactly one result, made by the canvas fallback: its applied filters
  hold the marker \<^verbatim>\<open>canvas-fallback\<close>, its size is the size of the input file and its
  URL refers to the bytes of the input file. No callback is called and the processor is
  unchanged.
\<close>

theorem C8_canvas_fallback_passthrough:
  assumes "\<not> isLoaded s" and "\<not> supportsWebCodecs s"
  shows "\<exists>r. generateVariations rt eng s inputFile params 1 onProgress = (s, [], Inr [r]) \<and>
             ''canvas-fallback'' \<in> set (applied_filters r) \<and>
             size_m (metadata r) = size_b inputFile \<and>
             output_url r = blob_of inputFile"
proof -
  let ?cb = "Some (\<lambda>progress. case onProgress of None \<Rightarrow> [] | Some cb \<Rightarrow> [cb (0 + 1) progress])"
  have pv: "processVideo rt eng s inputFile params ?cb =
      (s, [], Inr (processWithCanvas inputFile params ?cb))"
    using assms by (simp add: processVideo_fallback)
  have rest: "generateVariations_loop rt eng inputFile params 1 onProgress (0 + 1) s
      ([] @ [processWithCanvas inputFile params ?cb]) =
      (s, [], Inr [processWithCanvas inputFile params ?cb])"
    by (simp add: loop_done)
  have "generateVariations rt eng s inputFile params 1 onProgress =
      (s, [], Inr [processWithCanvas inputFile params ?cb])"
    unfolding generateVariations_def using loop_step [OF _ pv rest] by simp
  then show ?thesis by (simp add: processWithCanvas_def)
qed

theorem C8_canvas_fallback_passthrough_witness:
  "\<not> isLoaded fallbackProcessor \<and> \<not> supportsWebCodecs fallbackProcessor \<and>
   (\<exists>r. generateVariations halfRuntime steadyEngine fallbackProcessor sampleFile
           initialParameters 1 (Some Pair) = (fallbackProcessor, [], Inr [r]) \<and>
        ''canvas-fallback'' \<in> set (applied_filters r) \<and>
        size_m (metadata r) = size_b sampleFile \<and>
        output_url r = blob_of sampleFile)"
proof -
  have h: "\<not> isLoaded fallbackProcessor" "\<not> supportsWebCodecs fallbackProcessor"
    by (simp_all add: fallbackProcessor_def initialize_def newVideoProcessorEnhanced_def)
  from C8_canvas_fallback_passthrough [OF h] h show ?thesis by blast
qed

text \<open>
  C7. The capability set is a function of the two engine-state fields \<^verbatim>\<open>isLoaded\<close>
  and \<^verbatim>\<open>supportsWebCodecs\<close> alone, so two reads between which they do not change
  agree; \<^verbatim>\<open>processVideo\<close>, \<^verbatim>\<open>generateVariations\<close> and a repeated
  \<^verbatim>\<open>initialize\<close> leave it as it is; and its canvas component is true in every state.
\<close>

theorem C7_capabilities_idempotent:
  "cap_canvas (capabilities s) \<and>
   (isLoaded s' = isLoaded s \<and> supportsWebCodecs s' = supportsWebCodecs s \<longrightarrow>
      capabilities s' = capabilities s) \<and>
   capabilities (fst (processVideo rt eng s inputFile params onProgress)) = capabilities s \<and>
   capabilities (fst (generateVariations rt eng s inputFile params n cb)) = capabilities s \<and>
   (isLoaded s \<longrightarrow> capabilities (fst (initialize loads s)) = capabilities s)"
proof -
  obtain t calls r where g: "generateVariations rt eng s inputFile params n cb = (t, calls, r)"
    by (cases "generateVariations rt eng s inputFile params n cb") auto
  from generateVariations_loop_engine_state [OF g [unfolded generateVariations_def]]
  have "capabilities t = capabilities s" by (simp add: capabilities_def)
  with g show ?thesis
    using processVideo_engine_state [of rt eng s inputFile params onProgress]
    by (simp add: capabilities_def initialize_def)
qed

theorem C7_capabilities_idempotent_witness:
  "cap_canvas (capabilities readyProcessor) \<and>
   isLoaded (readyProcessor\<lparr>mathRandomCalls := 7\<rparr>) = isLoaded readyProcessor \<and>
   supportsWebCodecs (readyProcessor\<lparr>mathRandomCalls := 7\<rparr>) = supportsWebCodecs readyProcessor \<and>
   capabilities (readyProcessor\<lparr>mathRandomCalls := 7\<rparr>) = capabilities readyProcessor \<and>
   isLoaded readyProcessor \<and>
   capabilities (fst (initialize True readyProcessor)) = capabilities readyProcessor"
proof -
  have l: "isLoaded readyProcessor"
    by (simp add: readyProcessor_def initialize_def newVideoProcessorEnhanced_def)
  from C7_capabilities_idempotent [of readyProcessor "readyProcessor\<lparr>mathRandomCalls := 7\<rparr>"
      halfRuntime steadyEngine sampleFile initialParameters None 0 None True] l
  show ?thesis by simp
qed

text \<open>
  C5. A call that resolves returns exactly \<open>n\<close> results (lemma
  \<open>generateVariations_count\<close>), but the variation indices given to the callback are not
  monotone: \<^verbatim>\<open>processVideo\<close> registers a new progress listener on every call and
  removes none, so during the second variation the listener of the first is called as
  well. With two variations and two progress events each, the indices are
  1, 1, 1, 2, 1, 2.
\<close>

theorem C5_stale_listener_trace:
  "map fst (fst (snd (generateVariations halfRuntime steadyEngine readyProcessor sampleFile
      initialParameters 2 (Some Pair)))) = [1, 1, 1, 2, 1, 2] \<and>
   \<not> sorted (map fst (fst (snd (generateVariations halfRuntime steadyEngine readyProcessor
      sampleFile initialParameters 2 (Some Pair)))))"
  by code_simp

section \<open>The claim about failures\<close>

lemma keeps_set_progress: "keeps (set_progress item v p)"
  by (simp add: keeps_def set_progress_def comp_def if_distrib cong: if_cong)

lemma deliver_keeps:
  assumes "listener_keeps l"
  shows "listener_keeps (fst (deliver l p)) \<and> list_all keeps (snd (deliver l p))"
  using assms by (cases l) auto

lemma deliver_all_keeps:
  assumes "list_all listener_keeps ls"
  shows "list_all listener_keeps (fst (deliver_all ls p)) \<and> list_all keeps (snd (deliver_all ls p))"
  using assms
proof (induction ls)
  case Nil
  then show ?case by simp
next
  case (Cons l ls)
  then show ?case
    using deliver_keeps [of l p] by (auto split: prod.splits)
qed

lemma run_ticks_keeps:
  assumes "list_all listener_keeps ls"
  shows "list_all listener_keeps (fst (run_ticks ls ps)) \<and> list_all keeps (snd (run_ticks ls ps))"
  using assms
proof (induction ps arbitrary: ls)
  case Nil
  then show ?case by simp
next
  case (Cons p ps)
  from deliver_all_keeps [OF Cons.prems, of p]
  have d: "list_all listener_keeps (fst (deliver_all ls p))" "list_all keeps (snd (deliver_all ls p))"
    by simp_all
  from Cons.IH [OF d(1)] d(2) show ?case
    by (auto split: prod.splits)
qed

lemma legacy_processVideo_quiet:
  assumes "quiet s" and "\<forall>p. list_all keeps (f p)"
    and "legacy_processVideo rt eng s inputFile params (Some f) = (s', calls, r)"
  shows "quiet s' \<and> list_all keeps calls"
proof (cases "ffmpeg s")
  case None
  with assms show ?thesis by (auto simp: legacy_processVideo_def)
next
  case (Some ls)
  obtain args k where a: "legacyArgs rt (mathRandomCalls s) params = (args, k)"
    by (cases "legacyArgs rt (mathRandomCalls s) params") auto
  show ?thesis
  proof (cases "eng (engineCalls s) inputFile args")
    case RejectedEarly
    with assms Some a show ?thesis
      by (auto simp: legacy_processVideo_def quiet_def)
  next
    case (Ran ticks data elapsed)
    let ?ls = "ls @ [Throttled 0 (\<lambda>progress. f (progress * 100))]"
    have "list_all listener_keeps ?ls"
      using assms(1,2) Some by (simp add: quiet_def)
    from run_ticks_keeps [OF this, of ticks]
    have k: "list_all listener_keeps (fst (run_ticks ?ls ticks))"
      "list_all keeps (snd (run_ticks ?ls ticks))" by simp_all
    from assms(3) Some a Ran k show ?thesis
      by (auto simp: legacy_processVideo_def quiet_def Let_def split: prod.splits option.splits)
  qed
qed


lemma legacy_loop_done:
  assumes "\<not> i < n"
  shows "legacy_generateVariations_loop rt eng inputFile params n onProgress i s vs =
         (s, [], Inr vs)"
  using assms by (subst legacy_generateVariations_loop.simps) simp

lemma legacy_loop_fail:
  assumes "i < n"
    and "legacy_processVideo rt eng s inputFile params
           (Some (\<lambda>progress. case onProgress of None \<Rightarrow> [] | Some cb \<Rightarrow> [cb (i + 1) progress])) =
         (s', calls, Inl e)"
  shows "legacy_generateVariations_loop rt eng inputFile params n onProgress i s vs =
         (s', calls, Inl e)"
  using assms by (subst legacy_generateVariations_loop.simps) simp

lemma legacy_loop_step:
  assumes "i < n"
    and "legacy_processVideo rt eng s inputFile params
           (Some (\<lambda>progress. case onProgress of None \<Rightarrow> [] | Some cb \<Rightarrow> [cb (i + 1) progress])) =
         (s', calls, Inr v)"
    and "legacy_generateVariations_loop rt eng inputFile params n onProgress (i + 1) s'
           (vs @ [v]) = (s'', calls', r)"
  shows "legacy_generateVariations_loop rt eng inputFile params n onProgress i s vs =
         (s'', calls @ calls', r)"
  using assms by (subst legacy_generateVariations_loop.simps) simp

lemma legacy_loop_quiet:
  assumes "legacy_generateVariations_loop rt eng inputFile params n (Some cb) i s vs = (t, calls, r)"
    and "quiet s" and "\<forall>v p. keeps (cb v p)"
  shows "quiet t \<and> list_all keeps calls"
  using assms
proof (induction rt eng inputFile params n "Some cb :: (nat \<Rightarrow> real \<Rightarrow> updater) option" i s vs
    arbitrary: t calls r rule: legacy_generateVariations_loop.induct)
  case (1 rt eng inputFile params n i s vs)
  let ?f = "\<lambda>progress. case Some cb of None \<Rightarrow> [] | Some cb \<Rightarrow> [cb (i + 1) progress]"
  show ?case
  proof (cases "i < n")
    case False
    with 1(2,3) show ?thesis by (simp add: legacy_loop_done)
  next
    case True
    obtain s' calls1 r1 where
      pv: "legacy_processVideo rt eng s inputFile params (Some ?f) = (s', calls1, r1)"
      by (cases "legacy_processVideo rt eng s inputFile params (Some ?f)") auto
    have "\<forall>p. list_all keeps (?f p)" using 1(4) by simp
    from legacy_processVideo_quiet [OF 1(3) this pv]
    have q1: "quiet s'" "list_all keeps calls1" by simp_all
    show ?thesis
    proof (cases r1)
      case (Inl e)
      with True pv 1(2) q1 show ?thesis by (simp add: legacy_loop_fail)
    next
      case (Inr v)
      obtain s'' calls2 r2 where rec: "legacy_generateVariations_loop rt eng inputFile params n
          (Some cb) (i + 1) s' (vs @ [v]) = (s'', calls2, r2)"
        by (cases "legacy_generateVariations_loop rt eng inputFile params n
          (Some cb) (i + 1) s' (vs @ [v])") auto
      from 1(1) [OF True pv [symmetric] refl Inr rec q1(1) 1(4)]
      have "quiet s'' \<and> list_all keeps calls2" .
      moreover from legacy_loop_step [OF True pv [unfolded Inr] rec] 1(2)
      have "t = s''" "calls = calls1 @ calls2" by simp_all
      ultimately show ?thesis using q1 by simp
    qed
  qed
qed

lemma legacy_generateVariations_quiet:
  assumes "legacy_generateVariations rt eng s inputFile params n (Some (set_progress item)) =
           (t, calls, r)"
    and "quiet s"
  shows "quiet t \<and> list_all keeps calls"
  using legacy_loop_quiet [OF assms(1) [unfolded legacy_generateVariations_def] assms(2)]
    keeps_set_progress by simp

lemma fold_keeps:
  assumes "list_all keeps calls"
  shows "map id_q (fold (\<lambda>u q. u q) calls q) = map id_q q \<and>
         map status (fold (\<lambda>u q. u q) calls q) = map status q"
  using assms by (induction calls arbitrary: q) (simp_all add: keeps_def)

lemma ids_set_processing: "map id_q (set_processing item q) = map id_q q"
  by (simp add: set_processing_def comp_def if_distrib cong: if_cong)

lemma ids_set_completed: "map id_q (set_completed item vs q) = map id_q q"
  by (simp add: set_completed_def comp_def if_distrib cong: if_cong)

lemma ids_set_error: "map id_q (set_error item q) = map id_q q"
  by (simp add: set_error_def comp_def if_distrib cong: if_cong)

lemma status_set_processing:
  "map status (set_processing item q) = mark (id_q item) processing (map id_q q) (map status q)"
  by (induction q) (simp_all add: set_processing_def mark_def)

lemma status_set_completed:
  "map status (set_completed item vs q) = mark (id_q item) completed (map id_q q) (map status q)"
  by (induction q) (simp_all add: set_completed_def mark_def)

lemma status_set_error:
  "map status (set_error item q) = mark (id_q item) error (map id_q q) (map status q)"
  by (induction q) (simp_all add: set_error_def mark_def)

lemma length_mark: "length ss = length ids \<Longrightarrow> length (mark i a ids ss) = length ids"
  by (simp add: mark_def)

lemma mark_mark:
  assumes "length ss = length ids"
  shows "mark i a ids (mark i b ids ss) = mark i a ids ss"
  using assms
proof (induction ids arbitrary: ss)
  case Nil
  then show ?case by (simp add: mark_def)
next
  case (Cons j ids)
  then obtain s ss' where "ss = s # ss'" by (cases ss) auto
  with Cons show ?case by (simp add: mark_def)
qed


lemma length_item_outcomes: "length (item_outcomes rt eng params n items vp) = length items"
  by (induction items arbitrary: vp) (simp_all split: prod.splits)

text \<open>One round of the loop, on the ids and the statuses of the queue.\<close>

lemma round_statuses:
  assumes "list_all keeps calls"
  shows "map id_q (set_completed item vs (fold (\<lambda>u q. u q) calls (set_processing item q))) =
           map id_q q"
    and "map status (set_completed item vs (fold (\<lambda>u q. u q) calls (set_processing item q))) =
           mark (id_q item) completed (map id_q q) (map status q)"
    and "map id_q (set_error item (fold (\<lambda>u q. u q) calls (set_processing item q))) =
           map id_q q"
    and "map status (set_error item (fold (\<lambda>u q. u q) calls (set_processing item q))) =
           mark (id_q item) error (map id_q q) (map status q)"
  using fold_keeps [OF assms, of "set_processing item q"]
  by (simp_all add: ids_set_completed ids_set_error ids_set_processing status_set_completed
      status_set_error status_set_processing mark_mark)

lemma processQueue_loop_statuses:
  assumes "processQueue_loop rt eng params n True items (vp, q) = (vp', q')"
    and "quiet vp"
  shows "map id_q q' = map id_q q \<and>
         map status q' =
           fold (\<lambda>(i, ok) ss. mark i (if ok then completed else error) (map id_q q) ss)
             (zip (map id_q items) (item_outcomes rt eng params n items vp)) (map status q)"
  using assms
proof (induction items arbitrary: vp q)
  case Nil
  then show ?case by simp
next
  case (Cons item items)
  obtain vp1 calls r where
    g: "legacy_generateVariations rt eng vp (file_q item) params n (Some (set_progress item)) =
        (vp1, calls, r)"
    by (cases "legacy_generateVariations rt eng vp (file_q item) params n
        (Some (set_progress item))") auto
  from legacy_generateVariations_quiet [OF g Cons.prems(2)]
  have q1: "quiet vp1" and k: "list_all keeps calls" by simp_all
  show ?case
  proof (cases r)
    case (Inr vs)
    let ?q = "set_completed item vs (fold (\<lambda>u q. u q) calls (set_processing item q))"
    from Cons.prems(1) g Inr
    have "processQueue_loop rt eng params n True items (vp1, ?q) = (vp', q')"
      by (simp add: Let_def)
    from Cons.IH [OF this q1] g Inr show ?thesis
      by (simp add: round_statuses [OF k])
  next
    case (Inl e)
    let ?q = "set_error item (fold (\<lambda>u q. u q) calls (set_processing item q))"
    from Cons.prems(1) g Inl
    have "processQueue_loop rt eng params n True items (vp1, ?q) = (vp', q')"
      by (simp add: Let_def)
    from Cons.IH [OF this q1] g Inl show ?thesis
      by (simp add: round_statuses [OF k])
  qed
qed

text \<open>Marking the entries of distinct ids one after the other.\<close>

lemma fold_mark:
  assumes "distinct is" and "length oks = length is" and "length ss = length ids"
  shows "fold (\<lambda>(i, ok) ss. mark i (st ok) ids ss) (zip is oks) ss =
         map (\<lambda>(j, s). case map_of (zip is oks) j of None \<Rightarrow> s | Some ok \<Rightarrow> st ok) (zip ids ss)"
  using assms
proof (induction "is" arbitrary: oks ss)
  case Nil
  have "map2 (\<lambda>j s. s) ids ss = map snd (zip ids ss)"
    by (simp add: case_prod_unfold)
  with Nil show ?case by (simp add: map_snd_zip)
next
  case (Cons i "is")
  then obtain ok oks' where oks: "oks = ok # oks'" by (cases oks) auto
  have len: "length (mark i (st ok) ids ss) = length ids"
    using Cons.prems(3) by (rule length_mark)
  have none: "map_of (zip is oks') i = None"
    using Cons.prems(1) by (auto simp: map_of_eq_None_iff dest: set_zip_leftD)
  have z: "zip ids (mark i (st ok) ids ss) =
      map (\<lambda>(j, s). (j, if j = i then st ok else s)) (zip ids ss)"
    using Cons.prems(3)
  proof (induction ids arbitrary: ss)
    case Nil
    then show ?case by (simp add: mark_def)
  next
    case (Cons j ids)
    then obtain s ss' where "ss = s # ss'" by (cases ss) auto
    with Cons show ?case by (simp add: mark_def)
  qed
  from Cons.prems oks have "distinct is" "length oks' = length is" by simp_all
  from Cons.IH [OF this len]
  have "fold (\<lambda>(i, ok) ss. mark i (st ok) ids ss) (zip is oks') (mark i (st ok) ids ss) =
      map (\<lambda>(j, s). case map_of (zip is oks') j of None \<Rightarrow> s | Some ok \<Rightarrow> st ok)
        (zip ids (mark i (st ok) ids ss))" .
  then show ?case
    unfolding oks z using none by (auto simp: comp_def split: option.splits)
qed

lemma fold_mark_all:
  assumes "distinct ids" and "length oks = length ids" and "length ss = length ids"
  shows "fold (\<lambda>(i, ok) ss. mark i (st ok) ids ss) (zip ids oks) ss = map st oks"
proof -
  have "map (\<lambda>(j, s). case map_of (zip ids oks) j of None \<Rightarrow> s | Some ok \<Rightarrow> st ok) (zip ids ss) =
      map st oks"
  proof (rule nth_equalityI)
    show "length (map (\<lambda>(j, s). case map_of (zip ids oks) j of None \<Rightarrow> s | Some ok \<Rightarrow> st ok)
        (zip ids ss)) = length (map st oks)"
      using assms by simp
  next
    fix k
    assume "k < length (map (\<lambda>(j, s). case map_of (zip ids oks) j of None \<Rightarrow> s | Some ok \<Rightarrow> st ok)
        (zip ids ss))"
    then have k: "k < length ids" using assms by simp
    then have "map_of (zip ids oks) (ids ! k) = Some (oks ! k)"
      using assms by (intro map_of_zip_nth) simp_all
    with k assms
    show "map (\<lambda>(j, s). case map_of (zip ids oks) j of None \<Rightarrow> s | Some ok \<Rightarrow> st ok)
        (zip ids ss) ! k = map st oks ! k"
      by simp
  qed
  with fold_mark [OF assms(1,2,3), of st] show ?thesis by simp
qed

lemma processQueue_statuses:
  assumes "distinct (map id_q (queue b))" and "quiet (videoProcessor b)" and "ffmpegLoaded b"
    and "\<not> isProcessing b" and "queue b \<noteq> []"
  shows "map id_q (queue (processQueue rt eng params b)) = map id_q (queue b) \<and>
         map status (queue (processQueue rt eng params b)) =
           map (\<lambda>ok. if ok then completed else error)
             (item_outcomes rt eng params (numberOfVariations b) (queue b) (videoProcessor b))"
proof -
  obtain vp' q' where l: "processQueue_loop rt eng params (numberOfVariations b) True (queue b)
      (videoProcessor b, queue b) = (vp', q')"
    by (cases "processQueue_loop rt eng params (numberOfVariations b) True (queue b)
      (videoProcessor b, queue b)") auto
  from processQueue_loop_statuses [OF l assms(2)]
  have ids: "map id_q q' = map id_q (queue b)"
    and st: "map status q' =
      fold (\<lambda>(i, ok) ss. mark i (if ok then completed else error) (map id_q (queue b)) ss)
        (zip (map id_q (queue b))
          (item_outcomes rt eng params (numberOfVariations b) (queue b) (videoProcessor b)))
        (map status (queue b))"
    by simp_all
  have "map status q' = map (\<lambda>ok. if ok then completed else error)
      (item_outcomes rt eng params (numberOfVariations b) (queue b) (videoProcessor b))"
    unfolding st by (rule fold_mark_all) (simp_all add: assms(1) length_item_outcomes)
  with ids l assms(3,4,5) show ?thesis
    by (simp add: processQueue_def)
qed



lemma sampleBatch_outcomes:
  "item_outcomes halfRuntime secondFailsEngine initialParameters (numberOfVariations sampleBatch)
     (queue sampleBatch) (videoProcessor sampleBatch) = [True, False, True]"
  by code_simp


end
